theory Spec2Isabelle
  imports Complex_Main
begin

section \<open>SST time series script: sst_timeseries_graph.py\<close>

text \<open>
  A shallow embedding of the data-acquisition pipeline of the script:
  \<^item> \<open>generate_monthly_dates\<close> (lines 110-133), the date axis;
  \<^item> \<open>fetch_sst_data\<close> (lines 41-107), one request per (date, metric);
  \<^item> \<open>collect_timeseries_data\<close> (lines 136-184), the sequential collection loop;
  \<^item> the title of \<open>create_graph\<close> (lines 238-244).
  Python integers are \<open>int\<close>. Python floats (latitude, longitude, delay, measured
  values) are never computed with by the script, only passed on, so they are
  represented by \<open>real\<close>. Exceptions are values of a sum type, \<open>Inl\<close> the exception.
  What the platform decides (how \<open>strftime\<close> prints a year below 1000, what the
  transport answers, which delays \<open>time.sleep\<close> accepts) is a parameter.
\<close>

subsection \<open>The datetime class of the standard library\<close>

datatype py_error = ValueError | OverflowError

text \<open>Only year, month and day are ever set by the script; the time of day is always midnight.\<close>

record datetime =
  year :: int
  month :: int
  day :: int

definition MINYEAR :: int where
  "MINYEAR = 1"

definition MAXYEAR :: int where
  "MAXYEAR = 9999"

definition is_leap :: "int \<Rightarrow> bool" where
  "is_leap y = (y mod 4 = 0 \<and> (y mod 100 \<noteq> 0 \<or> y mod 400 = 0))"

definition days_in_month :: "int \<Rightarrow> int \<Rightarrow> int" where
  "days_in_month y m =
     (if m = 2 then (if is_leap y then 29 else 28)
      else if m = 4 \<or> m = 6 \<or> m = 9 \<or> m = 11 then 30
      else 31)"

text \<open>The constructor arguments are converted to C ints first.\<close>

definition c_int :: "int \<Rightarrow> bool" where
  "c_int n = (- 2147483648 \<le> n \<and> n \<le> 2147483647)"

text \<open>
  \<open>datetime(y, m, d)\<close>: raises \<open>ValueError\<close> unless \<open>MINYEAR \<le> y \<le> MAXYEAR\<close>,
  \<open>1 \<le> m \<le> 12\<close> and \<open>1 \<le> d \<le> days_in_month y m\<close>.
\<close>

definition new_datetime :: "int \<Rightarrow> int \<Rightarrow> int \<Rightarrow> py_error + datetime" where
  "new_datetime y m d =
     (if \<not> c_int y \<or> \<not> c_int m \<or> \<not> c_int d then Inl OverflowError
      else if y < MINYEAR \<or> MAXYEAR < y then Inl ValueError
      else if m < 1 \<or> 12 < m then Inl ValueError
      else if d < 1 \<or> days_in_month y m < d then Inl ValueError
      else Inr \<lparr>year = y, month = m, day = d\<rparr>)"

text \<open>The comparison \<open>a <= b\<close> of two datetimes.\<close>

definition dt_le :: "datetime \<Rightarrow> datetime \<Rightarrow> bool" where
  "dt_le a b =
     (year a < year b \<or>
      (year a = year b \<and> (month a < month b \<or> (month a = month b \<and> day a \<le> day b))))"

definition dt_lt :: "datetime \<Rightarrow> datetime \<Rightarrow> bool" where
  "dt_lt a b = (dt_le a b \<and> \<not> dt_le b a)"

definition valid_datetime :: "datetime \<Rightarrow> bool" where
  "valid_datetime d =
     (MINYEAR \<le> year d \<and> year d \<le> MAXYEAR \<and> 1 \<le> month d \<and> month d \<le> 12 \<and>
      1 \<le> day d \<and> day d \<le> days_in_month (year d) (month d))"

subsection \<open>Formatting and parsing with the format %Y-%m-%d\<close>

definition digit_char :: "nat \<Rightarrow> char" where
  "digit_char n = ''0123456789'' ! (n mod 10)"

definition digit_of :: "char \<Rightarrow> nat option" where
  "digit_of c = map_of (zip ''0123456789'' [0, 1, 2, 3, 4, 5, 6, 7, 8, 9]) c"

definition pad4 :: "nat \<Rightarrow> string" where
  "pad4 n = [digit_char (n div 1000), digit_char (n div 100), digit_char (n div 10), digit_char n]"

definition pad2 :: "nat \<Rightarrow> string" where
  "pad2 n = [digit_char (n div 10), digit_char n]"

text \<open>
  \<open>d.strftime('%Y-%m-%d')\<close>. The month and the day are printed as two digits. The year
  is printed by the C library, and C libraries differ: glibc prints it as a plain
  decimal number, without padding (so \<open>datetime(5, 1, 1)\<close> gives \<open>5-01-01\<close> with
  CPython 3.11 on Linux); other platforms pad it with zeros to four digits, as the
  documentation of the module shows it. For the years from 1000 on the two agree.
  Which of the two the platform does is a parameter of the model. Only datetimes
  built by the constructor are ever formatted, so the year is between 1 and 9999.
\<close>

datatype year_format = Unpadded | Padded

fun decimal :: "nat \<Rightarrow> string" where
  "decimal n = (if n < 10 then [digit_char n] else decimal (n div 10) @ [digit_char n])"

declare decimal.simps [simp del]

fun year_str :: "year_format \<Rightarrow> nat \<Rightarrow> string" where
  "year_str Unpadded n = decimal n"
| "year_str Padded n = pad4 n"

definition strftime :: "year_format \<Rightarrow> datetime \<Rightarrow> string" where
  "strftime yf d =
     year_str yf (nat (year d)) @ ''-'' @ pad2 (nat (month d)) @ ''-'' @ pad2 (nat (day d))"

text \<open>
  \<open>datetime.strptime(s, '%Y-%m-%d')\<close>. The directive \<open>%Y\<close> takes exactly four digits,
  \<open>%m\<close> takes \<open>1[0-2]|0[1-9]|[1-9]\<close>, \<open>%d\<close> takes \<open>3[01]|[12]\d|0[1-9]|[1-9]| [1-9]\<close>;
  the whole string has to be consumed, and the fields have to make a date the
  constructor accepts. Anything else raises \<open>ValueError\<close>.
\<close>

definition nonzero_digit :: "char \<Rightarrow> bool" where
  "nonzero_digit c = (case digit_of c of None \<Rightarrow> False | Some n \<Rightarrow> 0 < n)"

definition two_digits :: "char \<Rightarrow> char \<Rightarrow> nat option" where
  "two_digits a b =
     (case (digit_of a, digit_of b) of
        (Some x, Some y) \<Rightarrow> Some (10 * x + y)
      | _ \<Rightarrow> None)"

definition month_token2 :: "char \<Rightarrow> char \<Rightarrow> bool" where
  "month_token2 a b =
     ((a = CHR ''1'' \<and> b \<in> set ''012'') \<or> (a = CHR ''0'' \<and> nonzero_digit b))"

definition day_token2 :: "char \<Rightarrow> char \<Rightarrow> bool" where
  "day_token2 a b =
     ((a = CHR ''3'' \<and> b \<in> set ''01'') \<or>
      (a \<in> set ''12'' \<and> digit_of b \<noteq> None) \<or>
      (a = CHR ''0'' \<and> nonzero_digit b) \<or>
      (a = CHR '' '' \<and> nonzero_digit b))"

fun parse_month :: "string \<Rightarrow> (nat \<times> string) option" where
  "parse_month (a # b # c # r) =
     (if c = CHR ''-'' \<and> month_token2 a b then map_option (\<lambda>m. (m, r)) (two_digits a b)
      else if b = CHR ''-'' \<and> nonzero_digit a then map_option (\<lambda>m. (m, c # r)) (digit_of a)
      else None)"
| "parse_month [a, b] =
     (if b = CHR ''-'' \<and> nonzero_digit a then map_option (\<lambda>m. (m, [])) (digit_of a) else None)"
| "parse_month _ = None"

fun parse_day :: "string \<Rightarrow> nat option" where
  "parse_day [a, b] =
     (if day_token2 a b then (if a = CHR '' '' then digit_of b else two_digits a b) else None)"
| "parse_day [a] = (if nonzero_digit a then digit_of a else None)"
| "parse_day _ = None"

fun parse_year :: "string \<Rightarrow> (nat \<times> string) option" where
  "parse_year (a # b # c # d # r) =
     (case (two_digits a b, two_digits c d) of
        (Some hi, Some lo) \<Rightarrow> Some (100 * hi + lo, r)
      | _ \<Rightarrow> None)"
| "parse_year _ = None"

definition strptime :: "string \<Rightarrow> py_error + datetime" where
  "strptime s =
     (case parse_year s of
        None \<Rightarrow> Inl ValueError
      | Some (y, r1) \<Rightarrow>
          (case r1 of
             [] \<Rightarrow> Inl ValueError
           | sep # r2 \<Rightarrow>
               if sep \<noteq> CHR ''-'' then Inl ValueError
               else
                 (case parse_month r2 of
                    None \<Rightarrow> Inl ValueError
                  | Some (m, r3) \<Rightarrow>
                      (case parse_day r3 of
                         None \<Rightarrow> Inl ValueError
                       | Some d \<Rightarrow>
                           (case new_datetime (int y) (int m) (int d) of
                              Inl e \<Rightarrow> Inl ValueError
                            | Inr dt \<Rightarrow> Inr dt)))))"

subsection \<open>generate_monthly_dates\<close>

text \<open>Lines 128-131: the first day of the month after \<open>current_date\<close>.\<close>

definition next_month :: "datetime \<Rightarrow> py_error + datetime" where
  "next_month current_date =
     (if month current_date = 12 then new_datetime (year current_date + 1) 1 1
      else new_datetime (year current_date) (month current_date + 1) 1)"

text \<open>The while loop of lines 125-131, with the list \<open>dates\<close> as accumulator.\<close>

function gmd_loop ::
  "year_format \<Rightarrow> datetime \<Rightarrow> datetime \<Rightarrow> string list \<Rightarrow> py_error + string list" where
  "gmd_loop yf current_date end_date dates =
     (if dt_le current_date end_date then
        (case next_month current_date of
           Inl e \<Rightarrow> Inl e
         | Inr nxt \<Rightarrow> gmd_loop yf nxt end_date (dates @ [strftime yf current_date]))
      else Inr dates)"
  by pat_completeness auto
termination
proof (relation "measure (\<lambda>(yf, c, e, ds). nat (12 * (year e - year c) + 13 - month c))")
  show "wf (measure (\<lambda>(yf, c, e, ds). nat (12 * (year e - year c) + 13 - month c)))"
    by simp
next
  fix yf :: year_format and current_date end_date :: datetime and dates :: "string list"
    and nxt :: datetime
  assume le: "dt_le current_date end_date"
    and nx: "next_month current_date = Inr nxt"
  have y: "year current_date \<le> year end_date"
    using le by (auto simp: dt_le_def)
  have "(month current_date = 12 \<and> year nxt = year current_date + 1 \<and> month nxt = 1) \<or>
        (month current_date < 12 \<and> year nxt = year current_date \<and> month nxt = month current_date + 1)"
    using nx by (auto simp: next_month_def new_datetime_def split: if_splits)
  then show "((yf, nxt, end_date, dates @ [strftime yf current_date]),
       (yf, current_date, end_date, dates))
      \<in> measure (\<lambda>(yf, c, e, ds). nat (12 * (year e - year c) + 13 - month c))"
    using y by auto
qed

declare gmd_loop.simps [simp del]

definition generate_monthly_dates :: "year_format \<Rightarrow> int \<Rightarrow> int \<Rightarrow> py_error + string list" where
  "generate_monthly_dates yf start_year end_year =
     (case new_datetime start_year 1 1 of
        Inl e \<Rightarrow> Inl e
      | Inr current_date \<Rightarrow>
          (case new_datetime end_year 12 31 of
             Inl e \<Rightarrow> Inl e
           | Inr end_date \<Rightarrow> gmd_loop yf current_date end_date []))"

text \<open>The \<open>i\<close>-th month counted from January of year \<open>s\<close>, used to state closed forms.\<close>

definition month_at :: "int \<Rightarrow> nat \<Rightarrow> datetime" where
  "month_at s i = \<lparr>year = s + int i div 12, month = int i mod 12 + 1, day = 1\<rparr>"

subsection \<open>Python values, the transport and the observable effects\<close>

text \<open>
  A decoded JSON payload is a Python value. \<open>PNone\<close> is Python's \<open>None\<close>, which is
  both JSON's \<open>null\<close> and the absent value returned by \<open>fetch_sst_data\<close>. A dictionary
  is an association list read with \<open>map_of\<close>.
\<close>

datatype pyval =
    PNone
  | PBool bool
  | PInt int
  | PFloat real
  | PStr string
  | PList "pyval list"
  | PDict "(string \<times> pyval) list"

text \<open>
  The exceptions the try block of \<open>fetch_sst_data\<close> can see: a
  \<open>requests.exceptions.RequestException\<close> (with its text), an \<open>AttributeError\<close> raised
  by calling \<open>.get\<close> on a value that is not a dictionary (with the type name of that
  value), or any other \<open>Exception\<close>.
\<close>

datatype exc = RequestException string | AttributeError string | OtherException string

fun type_name :: "pyval \<Rightarrow> string" where
  "type_name PNone = ''NoneType''"
| "type_name (PBool b) = ''bool''"
| "type_name (PInt n) = ''int''"
| "type_name (PFloat x) = ''float''"
| "type_name (PStr s) = ''str''"
| "type_name (PList xs) = ''list''"
| "type_name (PDict kvs) = ''dict''"

text \<open>\<open>v.get(k, dflt)\<close>: the method exists on dictionaries only.\<close>

fun py_get :: "pyval \<Rightarrow> string \<Rightarrow> pyval \<Rightarrow> exc + pyval" where
  "py_get (PDict kvs) k dflt = Inr (case map_of kvs k of None \<Rightarrow> dflt | Some v \<Rightarrow> v)"
| "py_get v k dflt = Inl (AttributeError (type_name v))"

text \<open>
  A response of the transport: its status code and what \<open>response.json()\<close> does
  (raises, or returns the decoded payload).
\<close>

datatype response = Response (status_code: int) (json: "exc + pyval")

record request =
  url :: string
  lat_param :: real
  lon_param :: real
  data_type_param :: string
  date_param :: string
  data_source_param :: string
  zoom_level_param :: int
  max_points_param :: int
  radius_param :: real
  api_key_header :: string
  content_type_header :: string
  timeout_arg :: int

datatype level = INFO | WARNING | ERROR

text \<open>
  A log message, kept as the values its f-string interpolates: date, metric and cause
  for the four warnings of \<open>fetch_sst_data\<close>, counts for the messages of the collector.
\<close>

datatype message =
    NonSuccessStatus string string pyval
  | RequestFailed string string int
  | RequestExceptionMsg string string exc
  | UnexpectedError string string exc
  | Collecting nat int int
  | Progress nat nat
  | Complete nat nat

datatype event = Get request | Sleep real | Log level message

text \<open>
  The world threaded through the effectful functions: the number of transport calls
  made so far and everything observable that happened, oldest first.
\<close>

record world =
  calls :: nat
  trace :: "event list"

text \<open>
  The environment: what the \<open>i\<close>-th call of \<open>requests.get\<close> does with a request
  (raises, or returns a response), and whether \<open>time.sleep\<close> raises for a delay
  (it does for a negative one).
\<close>

record env =
  transport :: "nat \<Rightarrow> request \<Rightarrow> exc + response"
  sleep_raises :: "real \<Rightarrow> py_error option"

definition log :: "level \<Rightarrow> message \<Rightarrow> world \<Rightarrow> world" where
  "log l m w = w\<lparr>trace := trace w @ [Log l m]\<rparr>"

subsection \<open>fetch_sst_data\<close>

definition API_BASE_URL :: string where
  "API_BASE_URL = ''https://api.deepearth.digital''"

definition API_ENDPOINT :: string where
  "API_ENDPOINT = ''/api/sst/point''"

text \<open>Lines 65-87: the request built from the arguments.\<close>

definition mk_request :: "real \<Rightarrow> real \<Rightarrow> string \<Rightarrow> string \<Rightarrow> string \<Rightarrow> string \<Rightarrow> string \<Rightarrow> request" where
  "mk_request lat lon data_type date api_key base_url endpoint =
     \<lparr>url = base_url @ endpoint,
      lat_param = lat,
      lon_param = lon,
      data_type_param = data_type,
      date_param = date,
      data_source_param = ''timeseries-graph'',
      zoom_level_param = 5,
      max_points_param = 4000,
      radius_param = 2,
      api_key_header = api_key,
      content_type_header = ''application/json'',
      timeout_arg = 30\<rparr>"

text \<open>
  Lines 89-100, the part of the try block after the transport call returned a
  response: the value returned and the warnings logged, or the exception raised.
\<close>

definition on_response :: "string \<Rightarrow> string \<Rightarrow> response \<Rightarrow> exc + (pyval \<times> message list)" where
  "on_response data_type date resp =
     (if status_code resp = 200 then
        (case json resp of
           Inl e \<Rightarrow> Inl e
         | Inr data \<Rightarrow>
             (case py_get data ''status'' PNone of
                Inl e \<Rightarrow> Inl e
              | Inr st \<Rightarrow>
                  if st = PStr ''success'' then
                    (case py_get data ''data'' (PDict []) of
                       Inl e \<Rightarrow> Inl e
                     | Inr data_obj \<Rightarrow>
                         if data_type = ''mean'' then
                           (case py_get data_obj ''temperature'' PNone of
                              Inl e \<Rightarrow> Inl e
                            | Inr v \<Rightarrow> Inr (v, []))
                         else
                           (case py_get data_obj ''anomaly'' PNone of
                              Inl e \<Rightarrow> Inl e
                            | Inr v \<Rightarrow> Inr (v, [])))
                  else
                    (case py_get data ''detail'' (PStr ''Unknown error'') of
                       Inl e \<Rightarrow> Inl e
                     | Inr detail \<Rightarrow> Inr (PNone, [NonSuccessStatus date data_type detail]))))
      else Inr (PNone, [RequestFailed date data_type (status_code resp)]))"

text \<open>Lines 102-107: the two handlers; both log one warning and fall through to \<open>return None\<close>.\<close>

fun on_exception :: "string \<Rightarrow> string \<Rightarrow> exc \<Rightarrow> pyval \<times> message list" where
  "on_exception data_type date (RequestException t) =
     (PNone, [RequestExceptionMsg date data_type (RequestException t)])"
| "on_exception data_type date e = (PNone, [UnexpectedError date data_type e])"

text \<open>The whole try statement, as a function of what the transport call did.\<close>

definition fetch_outcome :: "string \<Rightarrow> string \<Rightarrow> exc + response \<Rightarrow> pyval \<times> message list" where
  "fetch_outcome data_type date out =
     (case out of
        Inl e \<Rightarrow> on_exception data_type date e
      | Inr resp \<Rightarrow>
          (case on_response data_type date resp of
             Inl e \<Rightarrow> on_exception data_type date e
           | Inr r \<Rightarrow> r))"

definition fetch_sst_data ::
  "env \<Rightarrow> real \<Rightarrow> real \<Rightarrow> string \<Rightarrow> string \<Rightarrow> string \<Rightarrow> string \<Rightarrow> string \<Rightarrow> world \<Rightarrow> pyval \<times> world" where
  "fetch_sst_data en lat lon data_type date api_key base_url endpoint w =
     (let req = mk_request lat lon data_type date api_key base_url endpoint;
          out = transport en (calls w) req;
          (v, warnings) = fetch_outcome data_type date out
      in (v, \<lparr>calls = calls w + 1,
              trace = trace w @ Get req # map (Log WARNING) warnings\<rparr>))"

subsection \<open>generate_monthly_dates among the effectful functions\<close>

text \<open>
  The body of \<open>generate_monthly_dates\<close> once more, now written like the functions that
  have effects: the world is handed from statement to statement, through the loop, and
  returned with the result. This is the form in which \<open>collect_timeseries_data\<close>
  calls it. That no statement of the body touches the world is then a theorem about
  the loop and not a matter of the type.
\<close>

function gmd_loop_io ::
  "year_format \<Rightarrow> datetime \<Rightarrow> datetime \<Rightarrow> string list \<Rightarrow> world \<Rightarrow>
   (py_error + string list) \<times> world" where
  "gmd_loop_io yf current_date end_date dates w =
     (if dt_le current_date end_date then
        (case next_month current_date of
           Inl e \<Rightarrow> (Inl e, w)
         | Inr nxt \<Rightarrow> gmd_loop_io yf nxt end_date (dates @ [strftime yf current_date]) w)
      else (Inr dates, w))"
  by pat_completeness auto
termination
proof (relation "measure (\<lambda>(yf, c, e, ds, w). nat (12 * (year e - year c) + 13 - month c))")
  show "wf (measure (\<lambda>(yf, c, e, ds, w). nat (12 * (year e - year c) + 13 - month c)))"
    by simp
next
  fix yf :: year_format and current_date end_date :: datetime and dates :: "string list"
    and w :: world and nxt :: datetime
  assume le: "dt_le current_date end_date"
    and nx: "next_month current_date = Inr nxt"
  have y: "year current_date \<le> year end_date"
    using le by (auto simp: dt_le_def)
  have "(month current_date = 12 \<and> year nxt = year current_date + 1 \<and> month nxt = 1) \<or>
        (month current_date < 12 \<and> year nxt = year current_date \<and> month nxt = month current_date + 1)"
    using nx by (auto simp: next_month_def new_datetime_def split: if_splits)
  then show "((yf, nxt, end_date, dates @ [strftime yf current_date], w),
       (yf, current_date, end_date, dates, w))
      \<in> measure (\<lambda>(yf, c, e, ds, w). nat (12 * (year e - year c) + 13 - month c))"
    using y by auto
qed

declare gmd_loop_io.simps [simp del]

definition generate_monthly_dates_io ::
  "year_format \<Rightarrow> int \<Rightarrow> int \<Rightarrow> world \<Rightarrow> (py_error + string list) \<times> world" where
  "generate_monthly_dates_io yf start_year end_year w =
     (case new_datetime start_year 1 1 of
        Inl e \<Rightarrow> (Inl e, w)
      | Inr current_date \<Rightarrow>
          (case new_datetime end_year 12 31 of
             Inl e \<Rightarrow> (Inl e, w)
           | Inr end_date \<Rightarrow> gmd_loop_io yf current_date end_date [] w))"

subsection \<open>collect_timeseries_data\<close>

text \<open>\<open>time.sleep(delay)\<close>.\<close>

definition time_sleep :: "env \<Rightarrow> real \<Rightarrow> world \<Rightarrow> py_error + world" where
  "time_sleep en delay w =
     (case sleep_raises en delay of
        Some e \<Rightarrow> Inl e
      | None \<Rightarrow> Inr (w\<lparr>trace := trace w @ [Sleep delay]\<rparr>))"

text \<open>
  The for loop of lines 167-180 over \<open>enumerate(dates_str)\<close>, from index \<open>i\<close> on. An
  exception leaves the loop with the world as it was when it was raised.
\<close>

fun collect_loop ::
  "env \<Rightarrow> real \<Rightarrow> real \<Rightarrow> string \<Rightarrow> real \<Rightarrow> nat \<Rightarrow> nat \<Rightarrow> string list \<Rightarrow>
   pyval list \<Rightarrow> pyval list \<Rightarrow> world \<Rightarrow> (py_error + pyval list \<times> pyval list) \<times> world" where
  "collect_loop en lat lon api_key delay total' i [] temperatures anomalies w =
     (Inr (temperatures, anomalies), w)"
| "collect_loop en lat lon api_key delay total' i (date_str # rest) temperatures anomalies w =
     (let w0 = (if (i + 1) mod 12 = 0 \<or> i = 0 then log INFO (Progress (i + 1) total') w else w);
          (temp, w1) = fetch_sst_data en lat lon ''mean'' date_str api_key API_BASE_URL API_ENDPOINT w0
      in case time_sleep en delay w1 of
           Inl e \<Rightarrow> (Inl e, w1)
         | Inr w2 \<Rightarrow>
             (let (anom, w3) =
                    fetch_sst_data en lat lon ''anomaly'' date_str api_key API_BASE_URL API_ENDPOINT w2
              in case time_sleep en delay w3 of
                   Inl e \<Rightarrow> (Inl e, w3)
                 | Inr w4 \<Rightarrow>
                     collect_loop en lat lon api_key delay total' (i + 1) rest
                       (temperatures @ [temp]) (anomalies @ [anom]) w4))"

text \<open>Line 159: the list comprehension parsing every date string, in order.\<close>

fun parse_dates :: "string list \<Rightarrow> py_error + datetime list" where
  "parse_dates [] = Inr []"
| "parse_dates (d # ds) =
     (case strptime d of
        Inl e \<Rightarrow> Inl e
      | Inr dt \<Rightarrow> (case parse_dates ds of Inl e \<Rightarrow> Inl e | Inr dts \<Rightarrow> Inr (dt # dts)))"

definition count_present :: "pyval list \<Rightarrow> nat" where
  "count_present vs = length (filter (\<lambda>v. v \<noteq> PNone) vs)"

definition collect_timeseries_data ::
  "year_format \<Rightarrow> env \<Rightarrow> real \<Rightarrow> real \<Rightarrow> int \<Rightarrow> int \<Rightarrow> string \<Rightarrow> real \<Rightarrow> world \<Rightarrow>
   (py_error + datetime list \<times> pyval list \<times> pyval list) \<times> world" where
  "collect_timeseries_data yf en lat lon start_year end_year api_key delay w =
     (case generate_monthly_dates_io yf start_year end_year w of
        (Inl e, w') \<Rightarrow> (Inl e, w')
      | (Inr dates_str, w') \<Rightarrow>
          (case parse_dates dates_str of
             Inl e \<Rightarrow> (Inl e, w')
           | Inr dates \<Rightarrow>
               (let total' = length dates_str;
                    w0 = log INFO (Collecting total' start_year end_year) w'
                in case collect_loop en lat lon api_key delay total' 0 dates_str [] [] w0 of
                     (Inl e, w1) \<Rightarrow> (Inl e, w1)
                   | (Inr (temperatures, anomalies), w1) \<Rightarrow>
                       (Inr (dates, temperatures, anomalies),
                        log INFO (Complete (count_present temperatures) (count_present anomalies)) w1))))"

text \<open>The requests and pauses of a trace, without the log records.\<close>

fun is_io :: "event \<Rightarrow> bool" where
  "is_io (Log l m) = False"
| "is_io e = True"

definition io_events :: "event list \<Rightarrow> event list" where
  "io_events tr = filter is_io tr"

subsection \<open>The title of create_graph\<close>

text \<open>
  Lines 238-244. The title is an f-string; it is kept as its parts, the literal
  text and the two interpolated floats. The degree sign is two bytes in UTF-8.
\<close>

datatype title_part = Text string | FloatRepr real

definition degree_sign :: string where
  "degree_sign = [CHR 0xC2, CHR 0xB0]"

definition create_graph_title ::
  "datetime list \<Rightarrow> pyval list \<Rightarrow> pyval list \<Rightarrow> real \<Rightarrow> real \<Rightarrow> string \<Rightarrow> title_part list" where
  "create_graph_title dates temperatures anomalies lat lon output_file =
     [Text (''SST Time Series: Temperature and Anomaly'' @ [CHR 0x0A] @ ''Location: ''),
      FloatRepr lat,
      Text (degree_sign @ ''N, ''),
      FloatRepr lon,
      Text (degree_sign @ ''E (1981-2025)'')]"

subsection \<open>Simulated transports\<close>

text \<open>A transport that answers every call in the same way, and a sleep that never raises.\<close>

definition const_env :: "(exc + response) \<Rightarrow> env" where
  "const_env out = \<lparr>transport = (\<lambda>i req. out), sleep_raises = (\<lambda>d. None)\<rparr>"

definition success_payload :: "(string \<times> pyval) list \<Rightarrow> pyval" where
  "success_payload kvs = PDict [(''status'', PStr ''success''), (''data'', PDict kvs)]"

text \<open>\<open>time.sleep\<close> raises \<open>ValueError\<close> for a negative delay.\<close>

definition sleep_nonneg :: "real \<Rightarrow> py_error option" where
  "sleep_nonneg d = (if d < 0 then Some ValueError else None)"

text \<open>
  A transport whose \<open>i\<close>-th call (counted from 0) succeeds with temperature
  \<open>20.0 + 0.01 * i\<close> and anomaly \<open>0.5\<close>; what \<open>time.sleep\<close> does is left open.
\<close>

definition ramp_env :: "(real \<Rightarrow> py_error option) \<Rightarrow> env" where
  "ramp_env sl =
     \<lparr>transport = (\<lambda>i req. Inr (Response 200 (Inr (success_payload
          [(''temperature'', PFloat (20 + real i / 100)), (''anomaly'', PFloat (1 / 2))])))),
      sleep_raises = sl\<rparr>"

section \<open>Verification\<close>

subsection \<open>Lemmas about dates\<close>


lemma digit_cases: "k < 10 \<Longrightarrow> k = 0 \<or> k = 1 \<or> k = 2 \<or> k = 3 \<or> k = 4 \<or> k = 5 \<or> k = 6 \<or> k = 7 \<or> k = 8 \<or> k = (9::nat)"
  by arith

lemma digit_of_nth: "k < 10 \<Longrightarrow> digit_of (''0123456789'' ! k) = Some k"
  by (drule digit_cases) (auto simp: digit_of_def)

lemma digit_of_digit_char: "digit_of (digit_char n) = Some (n mod 10)"
  unfolding digit_char_def by (rule digit_of_nth) simp

lemma two_digits_pad: "two_digits (digit_char (n div 10)) (digit_char n) = Some (n mod 100)"
proof -
  have "10 * (n div 10 mod 10) + n mod 10 = n mod 100"
    using mod_mult2_eq [of n 10 10] by simp
  then show ?thesis by (simp add: two_digits_def digit_of_digit_char)
qed

lemma parse_year_pad4: "parse_year (pad4 y @ r) = Some (y mod 10000, r)"
proof -
  have a: "two_digits (digit_char (y div 1000)) (digit_char (y div 100)) = Some (y div 100 mod 100)"
  proof -
    have "y div 100 div 10 = y div 1000"
      using div_mult2_eq [of y 100 10] by simp
    then show ?thesis using two_digits_pad [of "y div 100"] by simp
  qed
  have b: "100 * (y div 100 mod 100) + y mod 100 = y mod 10000"
    using mod_mult2_eq [of y 100 100] by simp
  show ?thesis by (simp add: pad4_def a two_digits_pad b)
qed

lemma month_cases:
  "1 \<le> m \<Longrightarrow> m \<le> 12 \<Longrightarrow> m = 1 \<or> m = 2 \<or> m = 3 \<or> m = 4 \<or> m = 5 \<or> m = 6 \<or> m = 7 \<or> m = 8 \<or> m = 9 \<or> m = 10 \<or> m = 11 \<or> m = (12::nat)"
  by arith

lemma parse_month_pad2:
  assumes "1 \<le> m" "m \<le> 12"
  shows "parse_month (pad2 m @ CHR ''-'' # r) = Some (m, r)"
  using month_cases [OF assms]
  by (elim disjE)
     (simp_all add: pad2_def digit_char_def month_token2_def two_digits_def digit_of_def nonzero_digit_def)

lemma digit_char_small:
  "digit_char 0 = CHR ''0''" "digit_char (Suc 0) = CHR ''1''"
  "digit_char 2 = CHR ''2''" "digit_char 3 = CHR ''3''"
  by (simp_all add: digit_char_def)

lemma day_token2_pad2:
  assumes "1 \<le> d" "d \<le> 31"
  shows "day_token2 (digit_char (d div 10)) (digit_char d)"
proof -
  have "d div 10 < 4" using assms by simp
  then have c: "d div 10 = 0 \<or> d div 10 = 1 \<or> d div 10 = 2 \<or> d div 10 = 3" by arith
  have nz: "d div 10 = 0 \<Longrightarrow> 0 < d mod 10" using assms by presburger
  have le: "d div 10 = 3 \<Longrightarrow> d mod 10 = 0 \<or> d mod 10 = 1" using assms by presburger
  from c show ?thesis
  proof (elim disjE)
    assume z: "d div 10 = 0"
    then show ?thesis
      using nz digit_of_digit_char [of d]
      by (simp add: day_token2_def nonzero_digit_def digit_char_small)
  next
    assume "d div 10 = 1"
    then show ?thesis
      using digit_of_digit_char [of d] by (simp add: day_token2_def digit_char_small)
  next
    assume "d div 10 = 2"
    then show ?thesis
      using digit_of_digit_char [of d] by (simp add: day_token2_def digit_char_small)
  next
    assume z: "d div 10 = 3"
    with le have "digit_char d = CHR ''0'' \<or> digit_char d = CHR ''1''"
      by (auto simp: digit_char_def)
    with z show ?thesis
      by (auto simp: day_token2_def digit_char_small)
  qed
qed

lemma parse_day_pad2:
  assumes "1 \<le> d" "d \<le> 31"
  shows "parse_day (pad2 d) = Some d"
proof -
  have ns: "digit_char (d div 10) \<noteq> CHR '' ''"
    using digit_of_digit_char [of "d div 10"] by (auto simp: digit_of_def)
  have "d mod 100 = d" using assms by simp
  then show ?thesis
    using day_token2_pad2 [OF assms] two_digits_pad [of d] ns by (simp add: pad2_def)
qed

lemma days_in_month_le: "days_in_month y m \<le> 31"
  by (simp add: days_in_month_def)

lemma new_datetime_valid:
  "valid_datetime d \<Longrightarrow> new_datetime (year d) (month d) (day d) = Inr d"
  using days_in_month_le [of "year d" "month d"]
  by (simp add: valid_datetime_def new_datetime_def c_int_def MINYEAR_def MAXYEAR_def)

lemma days_in_month_ge: "28 \<le> days_in_month y m"
  by (simp add: days_in_month_def)

lemma new_datetime_first:
  assumes "1 \<le> y" "y \<le> 9999" "1 \<le> m" "m \<le> 12"
  shows "new_datetime y m 1 = Inr \<lparr>year = y, month = m, day = 1\<rparr>"
proof -
  have "1 \<le> days_in_month y m" using days_in_month_ge [of y m] by linarith
  then show ?thesis using assms
    by (simp add: new_datetime_def c_int_def MINYEAR_def MAXYEAR_def)
qed

lemma new_datetime_last:
  assumes "1 \<le> y" "y \<le> 9999"
  shows "new_datetime y 12 31 = Inr \<lparr>year = y, month = 12, day = 31\<rparr>"
  using assms by (simp add: new_datetime_def c_int_def MINYEAR_def MAXYEAR_def days_in_month_def)

lemma div12_decomp:
  "int i = 12 * (int i div 12) + int i mod 12" "0 \<le> int i mod 12" "int i mod 12 < 12"
  "0 \<le> int i div 12"
  by simp_all

lemma div12_Suc_wrap:
  assumes "int i mod 12 = 11"
  shows "int (Suc i) div 12 = int i div 12 + 1" "int (Suc i) mod 12 = 0"
proof -
  have "int i = 12 * (int i div 12) + 11"
    using div12_decomp(1) [of i] unfolding assms .
  moreover have "a = 12 * q + 11 \<Longrightarrow> a + 1 = 12 * (q + 1) + 0" for a q :: int
    by simp
  ultimately have "int i + 1 = 12 * (int i div 12 + 1) + 0"
    by blast
  then have a: "int (Suc i) = 12 * (int i div 12 + 1) + 0"
    by (simp only: of_nat_Suc add.commute)
  have b: "(0::int) \<le> 0" "(0::int) < 12" by simp_all
  show "int (Suc i) div 12 = int i div 12 + 1"
    using a b by (rule int_div_pos_eq)
  show "int (Suc i) mod 12 = 0"
    using a b by (rule int_mod_pos_eq)
qed

lemma div12_Suc_step:
  assumes "int i mod 12 \<noteq> 11"
  shows "int (Suc i) div 12 = int i div 12" "int (Suc i) mod 12 = int i mod 12 + 1"
proof -
  have a: "int (Suc i) = 12 * (int i div 12) + (int i mod 12 + 1)"
    using div12_decomp(1) [of i] by linarith
  have b: "0 \<le> int i mod 12 + 1" "int i mod 12 + 1 < 12"
    using div12_decomp(2,3) [of i] assms by linarith+
  show "int (Suc i) div 12 = int i div 12"
    using a b by (rule int_div_pos_eq)
  show "int (Suc i) mod 12 = int i mod 12 + 1"
    using a b by (rule int_mod_pos_eq)
qed

lemma div12_less:
  assumes "int i < 12 * k"
  shows "int i div 12 < k"
  using div12_decomp(1,2) [of i] assms by linarith

lemma div12_le:
  assumes "int i \<le> 12 * k"
  shows "int i div 12 \<le> k"
  using div12_decomp(1,2) [of i] assms by linarith

lemma div12_mono:
  assumes "i < j"
  shows "int i div 12 < int j div 12 \<or> (int i div 12 = int j div 12 \<and> int i mod 12 < int j mod 12)"
proof -
  have "int i < int j" using assms by simp
  then have "12 * (int i div 12) + int i mod 12 < 12 * (int j div 12) + int j mod 12"
    using div12_decomp(1) [of i] div12_decomp(1) [of j] by linarith
  then show ?thesis
    using div12_decomp(2,3) [of i] div12_decomp(2,3) [of j] by linarith
qed

lemma next_month_month_at:
  assumes "1 \<le> s" "s + int (Suc i) div 12 \<le> 9999"
  shows "next_month (month_at s i) = Inr (month_at s (Suc i))"
proof (cases "int i mod 12 = 11")
  case True
  then have e: "int (Suc i) div 12 = int i div 12 + 1" "int (Suc i) mod 12 = 0"
    by (rule div12_Suc_wrap)+
  have "0 \<le> int i div 12" by simp
  then have "new_datetime (s + int i div 12 + 1) 1 1 = Inr \<lparr>year = s + int i div 12 + 1, month = 1, day = 1\<rparr>"
    using assms e by (intro new_datetime_first) auto
  with True e show ?thesis
    by (simp add: next_month_def month_at_def)
next
  case False
  then have e: "int (Suc i) div 12 = int i div 12" "int (Suc i) mod 12 = int i mod 12 + 1"
    by (rule div12_Suc_step)+
  have b: "0 \<le> int i mod 12" "int i mod 12 < 12" "0 \<le> int i div 12" by simp_all
  have "new_datetime (s + int i div 12) (int i mod 12 + 1 + 1) 1 =
     Inr \<lparr>year = s + int i div 12, month = int i mod 12 + 1 + 1, day = 1\<rparr>"
    using assms e b False by (intro new_datetime_first) auto
  with False e show ?thesis
    by (simp add: next_month_def month_at_def)
qed

lemma dt_le_month_at:
  "dt_le (month_at s i) \<lparr>year = e, month = 12, day = 31\<rparr> \<longleftrightarrow> s + int i div 12 \<le> e"
proof -
  have "int i mod 12 < 12" by simp
  then show ?thesis by (auto simp: dt_le_def month_at_def)
qed

lemma gmd_loop_closed:
  assumes "1 \<le> s" "s \<le> e" "e \<le> 9998" "i \<le> n" "n = nat (12 * (e - s + 1))"
  shows "gmd_loop yf (month_at s i) \<lparr>year = e, month = 12, day = 31\<rparr> acc =
         Inr (acc @ map (\<lambda>j. strftime yf (month_at s j)) [i..<n])"
  using assms(4)
proof (induction "n - i" arbitrary: i acc)
  case 0
  then have "i = n" by simp
  then have "int i = 12 * (e - s + 1)" using assms by simp
  then have "int i div 12 = e - s + 1" by simp
  then have "\<not> dt_le (month_at s i) \<lparr>year = e, month = 12, day = 31\<rparr>"
    by (simp add: dt_le_month_at)
  then show ?case using \<open>i = n\<close> by (subst gmd_loop.simps) simp
next
  case (Suc k)
  then have lt: "i < n" by simp
  then have "int i < 12 * (e - s + 1)" using assms by linarith
  then have d: "int i div 12 \<le> e - s" using div12_less [of i "e - s + 1"] by linarith
  have "int (Suc i) \<le> 12 * (e - s + 1)" using lt assms by linarith
  then have d': "int (Suc i) div 12 \<le> e - s + 1" by (rule div12_le)
  have le: "dt_le (month_at s i) \<lparr>year = e, month = 12, day = 31\<rparr>"
    using d by (simp add: dt_le_month_at)
  have nx: "next_month (month_at s i) = Inr (month_at s (Suc i))"
    using assms d' by (intro next_month_month_at) auto
  have ih: "gmd_loop yf (month_at s (Suc i)) \<lparr>year = e, month = 12, day = 31\<rparr> (acc @ [strftime yf (month_at s i)]) =
         Inr ((acc @ [strftime yf (month_at s i)]) @ map (\<lambda>j. strftime yf (month_at s j)) [Suc i..<n])"
    using Suc lt by (intro Suc.hyps(1)) auto
  show ?case
    by (subst gmd_loop.simps) (simp add: le nx ih upt_conv_Cons [OF lt])
qed

lemma gmd_closed:
  assumes "1 \<le> s" "s \<le> e" "e \<le> 9998"
  shows "generate_monthly_dates yf s e = Inr (map (\<lambda>j. strftime yf (month_at s j)) [0..<nat (12 * (e - s + 1))])"
proof -
  have a: "new_datetime s 1 1 = Inr (month_at s 0)"
    using assms new_datetime_first [of s 1] by (simp add: month_at_def)
  have b: "new_datetime e 12 31 = Inr \<lparr>year = e, month = 12, day = 31\<rparr>"
    using assms by (intro new_datetime_last) auto
  show ?thesis
    unfolding generate_monthly_dates_def
    using gmd_loop_closed [OF assms, where i = 0 and acc = "[]" and yf = yf] by (simp add: a b)
qed

lemma gmd_empty:
  assumes "1 \<le> e" "e < s" "s \<le> 9999"
  shows "generate_monthly_dates yf s e = Inr []"
proof -
  have a: "new_datetime s 1 1 = Inr \<lparr>year = s, month = 1, day = 1\<rparr>"
    using assms by (intro new_datetime_first) auto
  have b: "new_datetime e 12 31 = Inr \<lparr>year = e, month = 12, day = 31\<rparr>"
    using assms by (intro new_datetime_last) auto
  have "\<not> dt_le \<lparr>year = s, month = 1, day = 1\<rparr> \<lparr>year = e, month = 12, day = 31\<rparr>"
    using assms by (simp add: dt_le_def)
  then show ?thesis
    unfolding generate_monthly_dates_def by (simp add: a b gmd_loop.simps)
qed

lemma valid_month_at:
  assumes "1 \<le> s" "s + int i div 12 \<le> 9999"
  shows "valid_datetime (month_at s i)"
proof -
  have "0 \<le> int i div 12" "0 \<le> int i mod 12" "int i mod 12 < 12" by simp_all
  moreover have "1 \<le> days_in_month (s + int i div 12) (int i mod 12 + 1)"
    using days_in_month_ge [of "s + int i div 12" "int i mod 12 + 1"] by linarith
  ultimately show ?thesis using assms
    by (simp add: valid_datetime_def month_at_def MINYEAR_def MAXYEAR_def)
qed

lemma dt_lt_month_at:
  assumes "i < j"
  shows "dt_lt (month_at s i) (month_at s j)"
proof -
  have "int i div 12 < int j div 12 \<or> (int i div 12 = int j div 12 \<and> int i mod 12 < int j mod 12)"
    using assms by (rule div12_mono)
  then show ?thesis
    by (auto simp: dt_lt_def dt_le_def month_at_def)
qed

lemma upt_twelve: "[0..<12] = [0, 1, 2, 3, 4, 5, 6, 7, 8, 9, 10, 11::nat]"
  by code_simp

lemma upto_twelve: "[1..12] = [1, 2, 3, 4, 5, 6, 7, 8, 9, 10, 11, 12::int]"
  by code_simp

lemma months_of_one_year: "map (\<lambda>i. int i mod 12 + 1) [0..<12] = [1..12]"
  by (simp add: upt_twelve upto_twelve)

subsection \<open>Lemmas about formatted dates\<close>

lemma decimal_small: "n < 10 \<Longrightarrow> decimal n = [digit_char n]"
  by (simp add: decimal.simps)

lemma decimal_step: "10 \<le> n \<Longrightarrow> decimal n = decimal (n div 10) @ [digit_char n]"
  by (simp add: decimal.simps)

lemma decimal_pad4:
  assumes "1000 \<le> n" "n < 10000"
  shows "decimal n = pad4 n"
proof -
  have d2: "n div 10 div 10 = n div 100" using div_mult2_eq [of n 10 10] by simp
  have d3: "n div 100 div 10 = n div 1000" using div_mult2_eq [of n 100 10] by simp
  have b1: "10 \<le> n" using assms by simp
  have b2: "10 \<le> n div 10" using assms by (simp add: less_eq_div_iff_mult_less_eq)
  have b3: "10 \<le> n div 100" using assms by (simp add: less_eq_div_iff_mult_less_eq)
  have b4: "n div 1000 < 10" using assms by (simp add: div_less_iff_less_mult)
  have "decimal n = decimal (n div 10) @ [digit_char n]"
    using b1 by (rule decimal_step)
  also have "decimal (n div 10) = decimal (n div 100) @ [digit_char (n div 10)]"
    using decimal_step [OF b2] by (simp add: d2)
  also have "decimal (n div 100) = decimal (n div 1000) @ [digit_char (n div 100)]"
    using decimal_step [OF b3] by (simp add: d3)
  also have "decimal (n div 1000) = [digit_char (n div 1000)]"
    using b4 by (rule decimal_small)
  finally show ?thesis by (simp add: pad4_def)
qed

lemma year_str_pad4:
  assumes "yf = Padded \<or> 1000 \<le> n" "n < 10000"
  shows "year_str yf n = pad4 n"
  using assms by (cases yf) (auto simp: decimal_pad4)

lemma decimal_value:
  "foldl (\<lambda>a c. 10 * a + the (digit_of c)) 0 (decimal n) = n"
proof (induction n rule: decimal.induct)
  case (1 n)
  show ?case
  proof (cases "n < 10")
    case True
    then show ?thesis by (simp add: decimal_small digit_of_digit_char)
  next
    case False
    then have s: "decimal n = decimal (n div 10) @ [digit_char n]"
      by (intro decimal_step) simp
    have "foldl (\<lambda>a c. 10 * a + the (digit_of c)) 0 (decimal (n div 10)) = n div 10"
      using False by (rule "1.IH")
    then show ?thesis by (simp add: s digit_of_digit_char)
  qed
qed

lemma pad4_inj:
  assumes "a < 10000" "b < 10000" "pad4 a = pad4 b"
  shows "a = b"
proof -
  have "parse_year (pad4 a @ []) = parse_year (pad4 b @ [])" using assms(3) by simp
  then have "a mod 10000 = b mod 10000" unfolding parse_year_pad4 by simp
  then show ?thesis using assms(1,2) by simp
qed

lemma year_str_inj:
  assumes "a < 10000" "b < 10000" "year_str yf a = year_str yf b"
  shows "a = b"
proof (cases yf)
  case Unpadded
  with assms(3) have "decimal a = decimal b" by simp
  then have "foldl (\<lambda>a c. 10 * a + the (digit_of c)) 0 (decimal a) =
      foldl (\<lambda>a c. 10 * a + the (digit_of c)) 0 (decimal b)" by simp
  then show ?thesis by (simp only: decimal_value)
next
  case Padded
  with assms show ?thesis by (auto intro: pad4_inj)
qed

lemma digit_char_not_dash: "digit_char n \<noteq> CHR ''-''"
proof
  assume "digit_char n = CHR ''-''"
  then have "digit_of (digit_char n) = digit_of (CHR ''-'')" by simp
  then show False by (simp add: digit_of_digit_char) (simp add: digit_of_def)
qed

lemma decimal_no_dash: "CHR ''-'' \<notin> set (decimal n)"
proof (induction n rule: decimal.induct)
  case (1 n)
  show ?case
  proof (cases "n < 10")
    case True
    then show ?thesis using digit_char_not_dash [of n] by (auto simp: decimal_small)
  next
    case False
    then have s: "decimal n = decimal (n div 10) @ [digit_char n]"
      by (intro decimal_step) simp
    have "CHR ''-'' \<notin> set (decimal (n div 10))" using False by (rule "1.IH")
    then show ?thesis using digit_char_not_dash [of n] by (auto simp: s)
  qed
qed

lemma year_str_no_dash: "CHR ''-'' \<notin> set (year_str yf n)"
proof (cases yf)
  case Unpadded
  then show ?thesis by (simp add: decimal_no_dash)
next
  case Padded
  then show ?thesis
    using digit_char_not_dash [of "n div 1000"] digit_char_not_dash [of "n div 100"]
      digit_char_not_dash [of "n div 10"] digit_char_not_dash [of n]
    by (auto simp: pad4_def)
qed

lemma split_at_dash:
  assumes "CHR ''-'' \<notin> set xs" "CHR ''-'' \<notin> set ys" "xs @ CHR ''-'' # r = ys @ CHR ''-'' # r'"
  shows "xs = ys \<and> r = r'"
proof -
  have a: "takeWhile (\<lambda>c. c \<noteq> CHR ''-'') (zs @ CHR ''-'' # q) = zs"
    and b: "dropWhile (\<lambda>c. c \<noteq> CHR ''-'') (zs @ CHR ''-'' # q) = CHR ''-'' # q"
    if "CHR ''-'' \<notin> set zs" for zs q
    using that by (induction zs) auto
  have "takeWhile (\<lambda>c. c \<noteq> CHR ''-'') (xs @ CHR ''-'' # r) =
        takeWhile (\<lambda>c. c \<noteq> CHR ''-'') (ys @ CHR ''-'' # r')"
    and "dropWhile (\<lambda>c. c \<noteq> CHR ''-'') (xs @ CHR ''-'' # r) =
        dropWhile (\<lambda>c. c \<noteq> CHR ''-'') (ys @ CHR ''-'' # r')"
    using assms(3) by simp_all
  then show ?thesis using assms(1,2) by (simp add: a b)
qed

lemma pad2_inj:
  assumes "a < 100" "b < 100" "pad2 a = pad2 b"
  shows "a = b"
proof -
  from assms(3) have "two_digits (digit_char (a div 10)) (digit_char a) =
      two_digits (digit_char (b div 10)) (digit_char b)"
    by (simp add: pad2_def)
  then have "a mod 100 = b mod 100" by (simp add: two_digits_pad)
  then show ?thesis using assms(1,2) by simp
qed

lemma strftime_inj:
  assumes "valid_datetime a" "valid_datetime b" "strftime yf a = strftime yf b"
  shows "a = b"
proof -
  have ra: "1 \<le> year a" "year a \<le> 9999" "1 \<le> month a" "month a \<le> 12" "1 \<le> day a" "day a \<le> 31"
    using assms(1) days_in_month_le [of "year a" "month a"]
    by (simp_all add: valid_datetime_def MINYEAR_def MAXYEAR_def)
  have rb: "1 \<le> year b" "year b \<le> 9999" "1 \<le> month b" "month b \<le> 12" "1 \<le> day b" "day b \<le> 31"
    using assms(2) days_in_month_le [of "year b" "month b"]
    by (simp_all add: valid_datetime_def MINYEAR_def MAXYEAR_def)
  from assms(3) have e: "year_str yf (nat (year a)) @ CHR ''-'' # (pad2 (nat (month a)) @ CHR ''-'' # pad2 (nat (day a))) =
      year_str yf (nat (year b)) @ CHR ''-'' # (pad2 (nat (month b)) @ CHR ''-'' # pad2 (nat (day b)))"
    by (simp add: strftime_def)
  from split_at_dash [OF year_str_no_dash year_str_no_dash e]
  have y: "year_str yf (nat (year a)) = year_str yf (nat (year b))"
    and r: "pad2 (nat (month a)) @ CHR ''-'' # pad2 (nat (day a)) =
            pad2 (nat (month b)) @ CHR ''-'' # pad2 (nat (day b))"
    by simp_all
  have "length (pad2 (nat (month a))) = length (pad2 (nat (month b)))" by (simp add: pad2_def)
  with r have m: "pad2 (nat (month a)) = pad2 (nat (month b))"
    and d: "pad2 (nat (day a)) = pad2 (nat (day b))"
    by simp_all
  have "nat (year a) = nat (year b)"
    using ra rb y by (intro year_str_inj [of _ _ yf]) simp_all
  moreover have "nat (month a) = nat (month b)"
    using ra rb m by (intro pad2_inj) simp_all
  moreover have "nat (day a) = nat (day b)"
    using ra rb d by (intro pad2_inj) simp_all
  ultimately have "year a = year b" "month a = month b" "day a = day b"
    using ra rb by simp_all
  then show ?thesis by simp
qed

lemma strptime_strftime:
  assumes "valid_datetime d" "yf = Padded \<or> 1000 \<le> year d"
  shows "strptime (strftime yf d) = Inr d"
proof -
  let ?y = "nat (year d)" and ?m = "nat (month d)" and ?dd = "nat (day d)"
  have r: "1 \<le> year d" "year d \<le> 9999" "1 \<le> month d" "month d \<le> 12" "1 \<le> day d" "day d \<le> 31"
    using assms(1) days_in_month_le [of "year d" "month d"]
    by (simp_all add: valid_datetime_def MINYEAR_def MAXYEAR_def)
  have ys: "year_str yf ?y = pad4 ?y"
    using assms(2) r by (intro year_str_pad4) auto
  have y: "parse_year (strftime yf d) = Some (?y, CHR ''-'' # pad2 ?m @ CHR ''-'' # pad2 ?dd)"
    using r parse_year_pad4 [of ?y] by (simp add: strftime_def ys)
  have m: "parse_month (pad2 ?m @ CHR ''-'' # pad2 ?dd) = Some (?m, pad2 ?dd)"
    using r by (intro parse_month_pad2) auto
  have dd: "parse_day (pad2 ?dd) = Some ?dd"
    using r by (intro parse_day_pad2) auto
  have i: "int ?y = year d" "int ?m = month d" "int ?dd = day d" using r by simp_all
  have n: "new_datetime (int ?y) (int ?m) (int ?dd) = Inr d"
    unfolding i by (rule new_datetime_valid [OF assms(1)])
  show ?thesis
    unfolding strptime_def y by (simp add: m dd n del: int_nat_eq)
qed

text \<open>
  A year below 1000 printed without padding is not read back: \<open>%Y\<close> wants four
  digits.
\<close>

lemma strptime_unpadded_year_5:
  "strftime Unpadded \<lparr>year = 5, month = 1, day = 1\<rparr> = ''5-01-01'' \<and>
   strptime ''5-01-01'' = Inl ValueError"
  by (simp add: strftime_def decimal_small pad2_def digit_char_def strptime_def two_digits_def
      digit_of_def)

subsection \<open>The date axis\<close>

text \<open>
  Claim C1, as amended. For all years with \<open>1 \<le> start_year \<le> end_year \<le> 9998\<close>,
  \<open>generate_monthly_dates\<close> returns exactly \<open>12 * (end_year - start_year + 1)\<close> date
  strings. They are the formatted first days of consecutive months: the \<open>i\<close>-th one is
  day 1 of month \<open>i mod 12 + 1\<close> of year \<open>start_year + i div 12\<close>. The dates are strictly
  increasing, no date and no string occurs twice, and for \<open>start_year = end_year\<close>
  the twelve dates are January to December of that year. This holds whether the
  platform pads the year or not.
\<close>

theorem generate_monthly_dates_axis:
  assumes "1 \<le> s" "s \<le> e" "e \<le> 9998"
  shows "\<exists>dts. generate_monthly_dates yf s e = Inr (map (strftime yf) dts)
      \<and> length dts = nat (12 * (e - s + 1))
      \<and> (\<forall>i < length dts. dts ! i = \<lparr>year = s + int i div 12, month = int i mod 12 + 1, day = 1\<rparr>)
      \<and> sorted_wrt dt_lt dts
      \<and> distinct dts
      \<and> distinct (map (strftime yf) dts)
      \<and> (s = e \<longrightarrow> map year dts = replicate 12 s \<and> map month dts = [1..12])"
proof -
  define n where "n = nat (12 * (e - s + 1))"
  define dts where "dts = map (month_at s) [0..<n]"
  have g: "generate_monthly_dates yf s e = Inr (map (strftime yf) dts)"
    using gmd_closed [OF assms, of yf] by (simp add: dts_def n_def comp_def)
  have len: "length dts = n" by (simp add: dts_def)
  have nth: "\<forall>i < length dts. dts ! i = \<lparr>year = s + int i div 12, month = int i mod 12 + 1, day = 1\<rparr>"
    by (simp add: dts_def month_at_def)
  have srt: "sorted_wrt dt_lt dts"
    by (simp add: dts_def sorted_wrt_iff_nth_less dt_lt_month_at)
  have irr: "\<not> dt_lt a a" for a by (simp add: dt_lt_def)
  have dis: "distinct dts"
    unfolding distinct_conv_nth
  proof (intro allI impI)
    fix i j assume "i < length dts" "j < length dts" "i \<noteq> j"
    then have "i < j \<or> j < i" by auto
    then have "dt_lt (month_at s i) (month_at s j) \<or> dt_lt (month_at s j) (month_at s i)"
      using dt_lt_month_at by blast
    then have "month_at s i \<noteq> month_at s j" using irr by auto
    then show "dts ! i \<noteq> dts ! j"
      using \<open>i < length dts\<close> \<open>j < length dts\<close> by (simp add: dts_def)
  qed
  have val: "valid_datetime d" if "d \<in> set dts" for d
  proof -
    from that obtain i where i: "i < n" "d = month_at s i" by (auto simp: dts_def)
    then have "int i < 12 * (e - s + 1)" using assms by (simp add: n_def)
    then have "int i div 12 \<le> e - s" using div12_less [of i "e - s + 1"] by linarith
    then show ?thesis using assms i by (intro valid_month_at [of s i, folded i(2)]) auto
  qed
  have dis': "distinct (map (strftime yf) dts)"
    unfolding distinct_map using dis val by (auto intro!: inj_onI strftime_inj)
  have one: "map year dts = replicate 12 s \<and> map month dts = [1..12]" if "s = e"
  proof -
    have "n = 12" using that by (simp add: n_def)
    then have "map month dts = map (\<lambda>i. int i mod 12 + 1) [0..<12]"
      by (simp add: dts_def month_at_def comp_def)
    moreover have "map year dts = map (\<lambda>i. s + int i div 12) [0..<12]"
      using \<open>n = 12\<close> by (simp add: dts_def month_at_def comp_def)
    moreover have "map (\<lambda>i. s + int i div 12) [0..<12] = replicate 12 s"
      by (simp add: upt_twelve eval_nat_numeral)
    ultimately show ?thesis using months_of_one_year by simp
  qed
  show ?thesis
    using g len nth srt dis dis' one unfolding n_def by blast
qed

theorem generate_monthly_dates_axis_witness:
  "(1::int) \<le> 5 \<and> (5::int) \<le> 5 \<and> (5::int) \<le> 9998 \<and>
   (\<exists>dts. generate_monthly_dates Unpadded 5 5 = Inr (map (strftime Unpadded) dts)
      \<and> length dts = 12 \<and> distinct (map (strftime Unpadded) dts)
      \<and> map year dts = replicate 12 5 \<and> map month dts = [1..12])"
proof -
  have b: "(1::int) \<le> 5" "(5::int) \<le> 5" "(5::int) \<le> 9998" by simp_all
  from generate_monthly_dates_axis [OF b, of Unpadded]
  obtain dts where "generate_monthly_dates Unpadded 5 5 = Inr (map (strftime Unpadded) dts)"
    "length dts = nat (12 * (5 - 5 + 1))"
    "distinct (map (strftime Unpadded) dts)"
    "map year dts = replicate 12 5 \<and> map month dts = [1..12]"
    by blast
  then show ?thesis by auto
qed

text \<open>
  Claim C1 as stated, for every pair of integers, fails: year 0 is below the smallest
  year of a datetime, the constructor raises and no list is returned.
\<close>

theorem generate_monthly_dates_year_zero_counterexample:
  "\<not> (\<exists>yf ds. generate_monthly_dates yf 0 0 = Inr ds \<and> length ds = nat (12 * (0 - 0 + 1)))"
  by (simp add: generate_monthly_dates_def new_datetime_def c_int_def MINYEAR_def)

text \<open>
  With \<open>end_year = 9999\<close> the loop appends December 9999 and then builds January
  10000, which the constructor refuses.
\<close>

lemma generate_monthly_dates_max_year:
  "generate_monthly_dates yf 9999 9999 = Inl ValueError"
  by (simp add: generate_monthly_dates_def new_datetime_def c_int_def MINYEAR_def MAXYEAR_def
      days_in_month_def gmd_loop.simps dt_le_def next_month_def)

subsection \<open>Years the datetime type does not have\<close>

lemma generate_monthly_dates_out_of_range:
  assumes "s < 1 \<or> 9999 < s \<or> e < 1 \<or> 9999 < e"
  shows "\<exists>err. generate_monthly_dates yf s e = Inl err"
proof (cases "new_datetime s 1 1")
  case (Inl err)
  then show ?thesis by (simp add: generate_monthly_dates_def)
next
  case (Inr c)
  then have "1 \<le> s \<and> s \<le> 9999"
    by (auto simp: new_datetime_def MINYEAR_def MAXYEAR_def split: if_splits)
  with assms have "e < 1 \<or> 9999 < e" by auto
  then have "\<exists>err. new_datetime e 12 31 = Inl err"
    by (auto simp: new_datetime_def MINYEAR_def MAXYEAR_def)
  then show ?thesis using Inr by (auto simp: generate_monthly_dates_def)
qed

subsection \<open>The date axis has no effects\<close>

lemma gmd_loop_io_eq: "gmd_loop_io yf c e ds w = (gmd_loop yf c e ds, w)"
proof (induction yf c e ds rule: gmd_loop.induct)
  case (1 yf c e ds)
  show ?case
  proof (cases "dt_le c e")
    case False
    then show ?thesis by (simp add: gmd_loop_io.simps [of yf c] gmd_loop.simps [of yf c])
  next
    case True
    show ?thesis
    proof (cases "next_month c")
      case (Inl err)
      with True show ?thesis
        by (simp add: gmd_loop_io.simps [of yf c] gmd_loop.simps [of yf c])
    next
      case (Inr nxt)
      with True "1.IH" [OF True Inr] show ?thesis
        by (simp add: gmd_loop_io.simps [of yf c] gmd_loop.simps [of yf c])
    qed
  qed
qed

lemma generate_monthly_dates_io_eq:
  "generate_monthly_dates_io yf s e w = (generate_monthly_dates yf s e, w)"
  by (simp add: generate_monthly_dates_io_def generate_monthly_dates_def gmd_loop_io_eq
      split: sum.splits)

text \<open>
  Claim C8. \<open>generate_monthly_dates\<close>, run as part of the program, leaves the world as
  it found it (no side effect), returns the same list whatever the world (no hidden
  state), and so returns the same list when it is invoked a second time with the same
  arguments.
\<close>

theorem generate_monthly_dates_pure:
  "snd (generate_monthly_dates_io yf s e w) = w \<and>
   fst (generate_monthly_dates_io yf s e w') = fst (generate_monthly_dates_io yf s e w) \<and>
   generate_monthly_dates_io yf s e (snd (generate_monthly_dates_io yf s e w)) =
     generate_monthly_dates_io yf s e w"
  by (simp add: generate_monthly_dates_io_eq)

subsection \<open>The point fetcher\<close>

lemma on_exception_one: "\<exists>m. on_exception data_type date e = (PNone, [m])"
  by (cases e) simp_all

lemma fetch_sst_data_unfold:
  "fetch_sst_data en lat lon data_type date api_key base_url endpoint w =
     (fst (fetch_outcome data_type date
             (transport en (calls w) (mk_request lat lon data_type date api_key base_url endpoint))),
      \<lparr>calls = calls w + 1,
       trace = trace w @ Get (mk_request lat lon data_type date api_key base_url endpoint) #
         map (Log WARNING) (snd (fetch_outcome data_type date
             (transport en (calls w) (mk_request lat lon data_type date api_key base_url endpoint))))\<rparr>)"
  by (simp add: fetch_sst_data_def Let_def split_beta)

lemma on_response_not_200:
  "status_code resp \<noteq> 200 \<Longrightarrow>
   on_response data_type date resp = Inr (PNone, [RequestFailed date data_type (status_code resp)])"
  by (simp add: on_response_def)

lemma on_response_undecodable:
  "on_response data_type date (Response 200 (Inl e)) = Inl e"
  by (simp add: on_response_def)

lemma on_response_not_success:
  assumes "py_get data ''status'' PNone \<noteq> Inr (PStr ''success'')"
  shows "(\<exists>e. on_response data_type date (Response 200 (Inr data)) = Inl e) \<or>
         (\<exists>m. on_response data_type date (Response 200 (Inr data)) = Inr (PNone, [m]))"
proof (cases "py_get data ''status'' PNone")
  case (Inl e)
  then show ?thesis by (simp add: on_response_def)
next
  case (Inr st)
  with assms have ns: "st \<noteq> PStr ''success''" by simp
  show ?thesis
  proof (cases "py_get data ''detail'' (PStr ''Unknown error'')")
    case (Inl e)
    with Inr ns show ?thesis by (simp add: on_response_def)
  next
    case (Inr detail)
    with \<open>py_get data ''status'' PNone = Inr st\<close> ns show ?thesis by (simp add: on_response_def)
  qed
qed

lemma py_get_not_dict: "(\<forall>kvs. v \<noteq> PDict kvs) \<Longrightarrow> py_get v k dflt = Inl (AttributeError (type_name v))"
  by (cases v) simp_all

lemma on_response_bad_data:
  assumes "py_get data ''status'' PNone = Inr (PStr ''success'')"
    and "py_get data ''data'' (PDict []) = Inr data_obj"
    and "\<forall>kvs. data_obj \<noteq> PDict kvs"
  shows "on_response data_type date (Response 200 (Inr data)) =
           Inl (AttributeError (type_name data_obj))"
  using assms(1,2) py_get_not_dict [OF assms(3)] by (simp add: on_response_def)

lemma fetch_outcome_failure:
  assumes "(\<exists>e. out = Inl e) \<or>
     (\<exists>c b. out = Inr (Response c b) \<and> c \<noteq> 200) \<or>
     (\<exists>e. out = Inr (Response 200 (Inl e))) \<or>
     (\<exists>data. out = Inr (Response 200 (Inr data)) \<and>
        py_get data ''status'' PNone \<noteq> Inr (PStr ''success'')) \<or>
     (\<exists>data data_obj. out = Inr (Response 200 (Inr data)) \<and>
        py_get data ''status'' PNone = Inr (PStr ''success'') \<and>
        py_get data ''data'' (PDict []) = Inr data_obj \<and> (\<forall>kvs. data_obj \<noteq> PDict kvs))"
  shows "\<exists>m. fetch_outcome data_type date out = (PNone, [m])"
  using assms
proof (elim disjE exE conjE)
  fix e assume "out = Inl e"
  then show ?thesis using on_exception_one [of data_type date e] by (simp add: fetch_outcome_def)
next
  fix c b assume "out = Inr (Response c b)" "c \<noteq> 200"
  then show ?thesis using on_response_not_200 [of "Response c b" data_type date]
    by (simp add: fetch_outcome_def)
next
  fix e assume "out = Inr (Response 200 (Inl e))"
  then show ?thesis using on_exception_one [of data_type date e]
    by (simp add: fetch_outcome_def on_response_undecodable)
next
  fix data assume o: "out = Inr (Response 200 (Inr data))"
    and ns: "py_get data ''status'' PNone \<noteq> Inr (PStr ''success'')"
  from on_response_not_success [OF ns, of data_type date] show ?thesis
  proof (elim disjE exE)
    fix e assume "on_response data_type date (Response 200 (Inr data)) = Inl e"
    then show ?thesis using o on_exception_one [of data_type date e]
      by (simp add: fetch_outcome_def)
  next
    fix m assume "on_response data_type date (Response 200 (Inr data)) = Inr (PNone, [m])"
    then show ?thesis using o by (simp add: fetch_outcome_def)
  qed
next
  fix data data_obj assume o: "out = Inr (Response 200 (Inr data))"
    and a: "py_get data ''status'' PNone = Inr (PStr ''success'')"
      "py_get data ''data'' (PDict []) = Inr data_obj" "\<forall>kvs. data_obj \<noteq> PDict kvs"
  show ?thesis
    using o on_response_bad_data [OF a, of data_type date]
      on_exception_one [of data_type date "AttributeError (type_name data_obj)"]
    by (simp add: fetch_outcome_def)
qed

text \<open>
  Claim C3. Whatever way a call of \<open>fetch_sst_data\<close> fails: the transport raises an
  exception, the response has a status other than 200 (HTTP 500, say), the payload
  cannot be decoded, the payload does not report the status \<open>success\<close> (or is no
  object at all), or its \<open>data\<close> member is no object: the function returns \<open>None\<close>,
  no exception leaves it, and it logs exactly one warning after the request.
\<close>

theorem fetch_sst_data_failure_absent:
  assumes "req = mk_request lat lon data_type date api_key base_url endpoint"
    and "out = transport en (calls w) req"
    and "(\<exists>e. out = Inl e) \<or>
     (\<exists>c b. out = Inr (Response c b) \<and> c \<noteq> 200) \<or>
     (\<exists>e. out = Inr (Response 200 (Inl e))) \<or>
     (\<exists>data. out = Inr (Response 200 (Inr data)) \<and>
        py_get data ''status'' PNone \<noteq> Inr (PStr ''success'')) \<or>
     (\<exists>data data_obj. out = Inr (Response 200 (Inr data)) \<and>
        py_get data ''status'' PNone = Inr (PStr ''success'') \<and>
        py_get data ''data'' (PDict []) = Inr data_obj \<and> (\<forall>kvs. data_obj \<noteq> PDict kvs))"
  shows "\<exists>m. fetch_sst_data en lat lon data_type date api_key base_url endpoint w =
           (PNone, \<lparr>calls = calls w + 1, trace = trace w @ [Get req, Log WARNING m]\<rparr>)"
proof -
  from fetch_outcome_failure [OF assms(3), of data_type date]
  obtain m where "fetch_outcome data_type date out = (PNone, [m])" by blast
  then show ?thesis
    using assms(1,2) by (simp add: fetch_sst_data_unfold)
qed

theorem fetch_sst_data_failure_absent_witness:
  "\<exists>m. fetch_sst_data (const_env (Inr (Response 500 (Inr PNone)))) 0 0 ''mean'' ''2024-01-01''
          ''key'' API_BASE_URL API_ENDPOINT \<lparr>calls = 0, trace = []\<rparr> =
        (PNone, \<lparr>calls = 1,
           trace = [Get (mk_request 0 0 ''mean'' ''2024-01-01'' ''key'' API_BASE_URL API_ENDPOINT),
                    Log WARNING m]\<rparr>)"
  using fetch_sst_data_failure_absent [of
      "mk_request 0 0 ''mean'' ''2024-01-01'' ''key'' API_BASE_URL API_ENDPOINT"
      0 0 "''mean''" "''2024-01-01''" "''key''" API_BASE_URL API_ENDPOINT
      "Inr (Response 500 (Inr PNone))" "const_env (Inr (Response 500 (Inr PNone)))"
      "\<lparr>calls = 0, trace = []\<rparr>"]
  by (simp add: const_env_def)

text \<open>
  Claim C4. With a response of status 200 and the payload
  \<open>{"status": "success", "data": {"temperature": 17.5}}\<close>, a request for \<open>mean\<close>
  returns 17.5 and a request for \<open>anomaly\<close> returns \<open>None\<close>.
\<close>

theorem fetch_sst_data_temperature_payload:
  "fst (fetch_sst_data
          (const_env (Inr (Response 200 (Inr (success_payload [(''temperature'', PFloat 17.5)])))))
          lat lon ''mean'' date api_key base_url endpoint w) = PFloat 17.5 \<and>
   fst (fetch_sst_data
          (const_env (Inr (Response 200 (Inr (success_payload [(''temperature'', PFloat 17.5)])))))
          lat lon ''anomaly'' date api_key base_url endpoint w) = PNone"
  by (simp add: fetch_sst_data_unfold const_env_def success_payload_def fetch_outcome_def
      on_response_def)

text \<open>
  Claim C10. For every decoded payload that reports success, \<open>fetch_sst_data\<close> reads
  the field \<open>temperature\<close> of the data object if \<open>data_type\<close> is exactly \<open>mean\<close>, and
  the field \<open>anomaly\<close> for every other string; no selector is rejected.
\<close>

theorem fetch_sst_data_field_selection:
  assumes "transport en (calls w) (mk_request lat lon data_type date api_key base_url endpoint) =
             Inr (Response 200 (Inr data))"
    and "py_get data ''status'' PNone = Inr (PStr ''success'')"
    and "py_get data ''data'' (PDict []) = Inr data_obj"
  shows "fst (fetch_sst_data en lat lon data_type date api_key base_url endpoint w) =
           (case py_get data_obj (if data_type = ''mean'' then ''temperature'' else ''anomaly'') PNone of
              Inl e \<Rightarrow> PNone
            | Inr v \<Rightarrow> v)"
proof (cases "py_get data_obj (if data_type = ''mean'' then ''temperature'' else ''anomaly'') PNone")
  case (Inl e)
  then have "on_response data_type date (Response 200 (Inr data)) = Inl e"
    using assms(2,3) by (simp add: on_response_def split: if_splits)
  then show ?thesis
    using assms(1) Inl on_exception_one [of data_type date e]
    by (auto simp: fetch_sst_data_unfold fetch_outcome_def)
next
  case (Inr v)
  then have "on_response data_type date (Response 200 (Inr data)) = Inr (v, [])"
    using assms(2,3) by (simp add: on_response_def split: if_splits)
  then show ?thesis
    using assms(1) Inr by (simp add: fetch_sst_data_unfold fetch_outcome_def)
qed

theorem fetch_sst_data_field_selection_witness:
  "fst (fetch_sst_data
          (const_env (Inr (Response 200 (Inr (success_payload
             [(''temperature'', PFloat 1), (''anomaly'', PFloat 2)])))))
          0 0 ''median'' ''2024-01-01'' ''key'' API_BASE_URL API_ENDPOINT \<lparr>calls = 0, trace = []\<rparr>) =
     PFloat 2"
  using fetch_sst_data_field_selection [of
      "const_env (Inr (Response 200 (Inr (success_payload
             [(''temperature'', PFloat 1), (''anomaly'', PFloat 2)]))))"
      "\<lparr>calls = 0, trace = []\<rparr>" 0 0 "''median''" "''2024-01-01''" "''key''"
      API_BASE_URL API_ENDPOINT
      "success_payload [(''temperature'', PFloat 1), (''anomaly'', PFloat 2)]"
      "PDict [(''temperature'', PFloat 1), (''anomaly'', PFloat 2)]"]
  by (simp add: const_env_def success_payload_def)

subsection \<open>The series collector\<close>

lemma parse_dates_length: "parse_dates ds = Inr dts \<Longrightarrow> length dts = length ds"
proof (induction ds arbitrary: dts)
  case Nil
  then show ?case by simp
next
  case (Cons d ds)
  then show ?case by (auto split: sum.splits)
qed

lemma parse_dates_strftime:
  "\<forall>d \<in> set dts. valid_datetime d \<and> (yf = Padded \<or> 1000 \<le> year d) \<Longrightarrow>
   parse_dates (map (strftime yf) dts) = Inr dts"
  by (induction dts) (simp_all add: strptime_strftime)

lemma gmd_total:
  assumes "1 \<le> s" "s \<le> 9999" "1 \<le> e" "e \<le> 9998"
  shows "\<exists>dts. generate_monthly_dates yf s e = Inr (map (strftime yf) dts) \<and>
           (\<forall>d \<in> set dts. valid_datetime d \<and> s \<le> year d)"
proof (cases "s \<le> e")
  case True
  have "valid_datetime (month_at s j) \<and> s \<le> year (month_at s j)"
    if "j < nat (12 * (e - s + 1))" for j
  proof -
    have "int j < 12 * (e - s + 1)" using that by linarith
    then have "int j div 12 \<le> e - s" using div12_less [of j "e - s + 1"] by linarith
    then have "valid_datetime (month_at s j)" using assms by (intro valid_month_at) auto
    moreover have "s \<le> year (month_at s j)" by (simp add: month_at_def)
    ultimately show ?thesis by simp
  qed
  then have "\<forall>d \<in> set (map (month_at s) [0..<nat (12 * (e - s + 1))]).
      valid_datetime d \<and> s \<le> year d"
    by auto
  moreover have "generate_monthly_dates yf s e =
      Inr (map (strftime yf) (map (month_at s) [0..<nat (12 * (e - s + 1))]))"
    using gmd_closed [OF assms(1) True assms(4), of yf] by (simp add: comp_def)
  ultimately show ?thesis by blast
next
  case False
  then have "generate_monthly_dates yf s e = Inr (map (strftime yf) [])"
    using assms gmd_empty [of e s yf] by simp
  then show ?thesis by (intro exI [of _ "[]"]) simp
qed

lemma collect_loop_lengths:
  "collect_loop en lat lon api_key delay n i ds temps anoms w = (Inr (t, a), w') \<Longrightarrow>
   length t = length temps + length ds \<and> length a = length anoms + length ds"
proof (induction ds arbitrary: i temps anoms w)
  case Nil
  then show ?case by simp
next
  case (Cons d ds)
  from Cons.prems obtain tv av w4 where
    "collect_loop en lat lon api_key delay n (i + 1) ds (temps @ [tv]) (anoms @ [av]) w4 =
       (Inr (t, a), w')"
    by (auto simp: Let_def split_beta split: sum.splits)
  from Cons.IH [OF this] show ?case by simp
qed

lemma io_events_append: "io_events (xs @ ys) = io_events xs @ io_events ys"
  by (simp add: io_events_def)

lemma io_events_warnings: "io_events (map (Log l) ms) = []"
  by (induction ms) (simp_all add: io_events_def)

lemma collect_loop_run:
  assumes "sleep_raises en delay = None"
  shows "\<exists>w' new. collect_loop en lat lon api_key delay n i ds temps anoms w =
      (Inr (temps @ map (\<lambda>k. fst (fetch_outcome ''mean'' (ds ! k)
                (transport en (calls w + 2 * k)
                   (mk_request lat lon ''mean'' (ds ! k) api_key API_BASE_URL API_ENDPOINT))))
              [0..<length ds],
            anoms @ map (\<lambda>k. fst (fetch_outcome ''anomaly'' (ds ! k)
                (transport en (calls w + 2 * k + 1)
                   (mk_request lat lon ''anomaly'' (ds ! k) api_key API_BASE_URL API_ENDPOINT))))
              [0..<length ds]), w')
    \<and> calls w' = calls w + 2 * length ds
    \<and> trace w' = trace w @ new
    \<and> io_events new = concat (map (\<lambda>d.
          [Get (mk_request lat lon ''mean'' d api_key API_BASE_URL API_ENDPOINT), Sleep delay,
           Get (mk_request lat lon ''anomaly'' d api_key API_BASE_URL API_ENDPOINT), Sleep delay]) ds)"
proof (induction ds arbitrary: i temps anoms w)
  case Nil
  then show ?case by (simp add: io_events_def)
next
  case (Cons d ds)
  define r1 where "r1 = mk_request lat lon ''mean'' d api_key API_BASE_URL API_ENDPOINT"
  define r2 where "r2 = mk_request lat lon ''anomaly'' d api_key API_BASE_URL API_ENDPOINT"
  define p0 where "p0 = (if (i + 1) mod 12 = 0 \<or> i = 0 then [Log INFO (Progress (i + 1) n)] else [])"
  define o1 where "o1 = fetch_outcome ''mean'' d (transport en (calls w) r1)"
  define o2 where "o2 = fetch_outcome ''anomaly'' d (transport en (calls w + 1) r2)"
  define pre where "pre = p0 @ Get r1 # map (Log WARNING) (snd o1) @ Sleep delay #
      Get r2 # map (Log WARNING) (snd o2) @ [Sleep delay]"
  define w4 where "w4 = \<lparr>calls = calls w + 2, trace = trace w @ pre\<rparr>"
  have step: "collect_loop en lat lon api_key delay n i (d # ds) temps anoms w =
      collect_loop en lat lon api_key delay n (i + 1) ds (temps @ [fst o1]) (anoms @ [fst o2]) w4"
    by (simp add: fetch_sst_data_unfold time_sleep_def assms Let_def log_def
        r1_def r2_def p0_def o1_def o2_def pre_def w4_def)
  have io: "io_events pre = [Get r1, Sleep delay, Get r2, Sleep delay]"
    by (simp add: pre_def p0_def io_events_append io_events_warnings)
       (simp add: io_events_def)
  from Cons.IH [of "i + 1" "temps @ [fst o1]" "anoms @ [fst o2]" w4]
  obtain w' new where
    run: "collect_loop en lat lon api_key delay n (i + 1) ds (temps @ [fst o1]) (anoms @ [fst o2]) w4 =
      (Inr ((temps @ [fst o1]) @ map (\<lambda>k. fst (fetch_outcome ''mean'' (ds ! k)
                (transport en (calls w4 + 2 * k)
                   (mk_request lat lon ''mean'' (ds ! k) api_key API_BASE_URL API_ENDPOINT))))
              [0..<length ds],
            (anoms @ [fst o2]) @ map (\<lambda>k. fst (fetch_outcome ''anomaly'' (ds ! k)
                (transport en (calls w4 + 2 * k + 1)
                   (mk_request lat lon ''anomaly'' (ds ! k) api_key API_BASE_URL API_ENDPOINT))))
              [0..<length ds]), w')"
    and c: "calls w' = calls w4 + 2 * length ds"
    and t: "trace w' = trace w4 @ new"
    and e: "io_events new = concat (map (\<lambda>d.
          [Get (mk_request lat lon ''mean'' d api_key API_BASE_URL API_ENDPOINT), Sleep delay,
           Get (mk_request lat lon ''anomaly'' d api_key API_BASE_URL API_ENDPOINT), Sleep delay]) ds)"
    by blast
  have res: "collect_loop en lat lon api_key delay n i (d # ds) temps anoms w =
      (Inr (temps @ map (\<lambda>k. fst (fetch_outcome ''mean'' ((d # ds) ! k)
                (transport en (calls w + 2 * k)
                   (mk_request lat lon ''mean'' ((d # ds) ! k) api_key API_BASE_URL API_ENDPOINT))))
              [0..<length (d # ds)],
            anoms @ map (\<lambda>k. fst (fetch_outcome ''anomaly'' ((d # ds) ! k)
                (transport en (calls w + 2 * k + 1)
                   (mk_request lat lon ''anomaly'' ((d # ds) ! k) api_key API_BASE_URL API_ENDPOINT))))
              [0..<length (d # ds)]), w')"
    unfolding step run
    by (simp add: map_upt_Suc w4_def o1_def o2_def r1_def r2_def del: upt_Suc)
  have c': "calls w' = calls w + 2 * length (d # ds)"
    using c by (simp add: w4_def)
  have t': "trace w' = trace w @ (pre @ new)"
    using t by (simp add: w4_def)
  have e': "io_events (pre @ new) = concat (map (\<lambda>d.
          [Get (mk_request lat lon ''mean'' d api_key API_BASE_URL API_ENDPOINT), Sleep delay,
           Get (mk_request lat lon ''anomaly'' d api_key API_BASE_URL API_ENDPOINT), Sleep delay]) (d # ds))"
    by (simp add: io_events_append io e r1_def r2_def)
  from res c' t' e' show ?case by blast
qed

lemma collect_run:
  assumes "1000 \<le> s" "s \<le> 9999" "1 \<le> e" "e \<le> 9998" "sleep_raises en delay = None"
  shows "\<exists>ds dates temps anoms w' new.
      generate_monthly_dates yf s e = Inr ds \<and> parse_dates ds = Inr dates \<and>
      collect_timeseries_data yf en lat lon s e api_key delay w = (Inr (dates, temps, anoms), w') \<and>
      temps = map (\<lambda>k. fst (fetch_outcome ''mean'' (ds ! k)
                (transport en (calls w + 2 * k)
                   (mk_request lat lon ''mean'' (ds ! k) api_key API_BASE_URL API_ENDPOINT))))
              [0..<length ds] \<and>
      anoms = map (\<lambda>k. fst (fetch_outcome ''anomaly'' (ds ! k)
                (transport en (calls w + 2 * k + 1)
                   (mk_request lat lon ''anomaly'' (ds ! k) api_key API_BASE_URL API_ENDPOINT))))
              [0..<length ds] \<and>
      calls w' = calls w + 2 * length ds \<and>
      trace w' = trace w @ new \<and>
      io_events new = concat (map (\<lambda>d.
          [Get (mk_request lat lon ''mean'' d api_key API_BASE_URL API_ENDPOINT), Sleep delay,
           Get (mk_request lat lon ''anomaly'' d api_key API_BASE_URL API_ENDPOINT), Sleep delay]) ds)"
proof -
  have "1 \<le> s" using assms(1) by simp
  from gmd_total [OF this assms(2-4), of yf] obtain dts where
    g: "generate_monthly_dates yf s e = Inr (map (strftime yf) dts)"
    and v: "\<forall>d \<in> set dts. valid_datetime d \<and> s \<le> year d"
    by blast
  define ds where "ds = map (strftime yf) dts"
  have "\<forall>d \<in> set dts. valid_datetime d \<and> (yf = Padded \<or> 1000 \<le> year d)"
    using v assms(1) by auto
  then have p: "parse_dates ds = Inr dts"
    unfolding ds_def by (rule parse_dates_strftime)
  define w0 where "w0 = log INFO (Collecting (length ds) s e) w"
  from collect_loop_run [OF assms(5), of lat lon api_key "length ds" 0 ds "[]" "[]" w0]
  obtain w1 new where
    run: "collect_loop en lat lon api_key delay (length ds) 0 ds [] [] w0 =
      (Inr ([] @ map (\<lambda>k. fst (fetch_outcome ''mean'' (ds ! k)
                (transport en (calls w0 + 2 * k)
                   (mk_request lat lon ''mean'' (ds ! k) api_key API_BASE_URL API_ENDPOINT))))
              [0..<length ds],
            [] @ map (\<lambda>k. fst (fetch_outcome ''anomaly'' (ds ! k)
                (transport en (calls w0 + 2 * k + 1)
                   (mk_request lat lon ''anomaly'' (ds ! k) api_key API_BASE_URL API_ENDPOINT))))
              [0..<length ds]), w1)"
    and c: "calls w1 = calls w0 + 2 * length ds"
    and t: "trace w1 = trace w0 @ new"
    and io: "io_events new = concat (map (\<lambda>d.
          [Get (mk_request lat lon ''mean'' d api_key API_BASE_URL API_ENDPOINT), Sleep delay,
           Get (mk_request lat lon ''anomaly'' d api_key API_BASE_URL API_ENDPOINT), Sleep delay]) ds)"
    by blast
  define temps where "temps = map (\<lambda>k. fst (fetch_outcome ''mean'' (ds ! k)
                (transport en (calls w + 2 * k)
                   (mk_request lat lon ''mean'' (ds ! k) api_key API_BASE_URL API_ENDPOINT))))
              [0..<length ds]"
  define anoms where "anoms = map (\<lambda>k. fst (fetch_outcome ''anomaly'' (ds ! k)
                (transport en (calls w + 2 * k + 1)
                   (mk_request lat lon ''anomaly'' (ds ! k) api_key API_BASE_URL API_ENDPOINT))))
              [0..<length ds]"
  have c0: "calls w0 = calls w" "trace w0 = trace w @ [Log INFO (Collecting (length ds) s e)]"
    by (simp_all add: w0_def log_def)
  have run': "collect_loop en lat lon api_key delay (length ds) 0 ds [] [] w0 = (Inr (temps, anoms), w1)"
    using run by (simp add: temps_def anoms_def c0)
  define w' where "w' = log INFO (Complete (count_present temps) (count_present anoms)) w1"
  define new' where "new' = Log INFO (Collecting (length ds) s e) # new @
      [Log INFO (Complete (count_present temps) (count_present anoms))]"
  have res: "collect_timeseries_data yf en lat lon s e api_key delay w = (Inr (dts, temps, anoms), w')"
    using g p run' by (simp add: collect_timeseries_data_def generate_monthly_dates_io_eq
        ds_def [symmetric] Let_def w0_def [symmetric] w'_def)
  have c': "calls w' = calls w + 2 * length ds"
    using c c0 by (simp add: w'_def log_def)
  have t': "trace w' = trace w @ new'"
    using t c0 by (simp add: w'_def log_def new'_def)
  have io': "io_events new' = concat (map (\<lambda>d.
          [Get (mk_request lat lon ''mean'' d api_key API_BASE_URL API_ENDPOINT), Sleep delay,
           Get (mk_request lat lon ''anomaly'' d api_key API_BASE_URL API_ENDPOINT), Sleep delay]) ds)"
    using io by (simp add: new'_def io_events_def)
  from g p res c' t' io' show ?thesis
    unfolding ds_def [symmetric] temps_def anoms_def by blast
qed

text \<open>
  Where the platform does not pad the year, a start year of fewer than four digits
  makes line 159 raise \<open>ValueError\<close> at the first date string, before any request.
\<close>

lemma digit_of_dash: "digit_of (CHR ''-'') = None"
  by (simp add: digit_of_def)

lemma strptime_unpadded_small:
  assumes "1 \<le> y" "y \<le> 999"
  shows "strptime (strftime Unpadded \<lparr>year = y, month = m, day = d\<rparr>) = Inl ValueError"
proof -
  let ?n = "nat y"
  have n: "?n < 1000" using assms by simp
  consider "?n < 10" | "10 \<le> ?n" "?n < 100" | "100 \<le> ?n" "?n < 1000"
    using n by linarith
  then have "parse_year (decimal ?n @ CHR ''-'' # pad2 (nat m) @ CHR ''-'' # pad2 (nat d)) = None"
  proof cases
    case 1
    then show ?thesis
      by (simp add: decimal_small pad2_def two_digits_def digit_of_dash digit_of_digit_char)
  next
    case 2
    then have "?n div 10 < 10" by (simp add: div_less_iff_less_mult)
    then have "decimal ?n = [digit_char (?n div 10), digit_char ?n]"
      using 2 by (simp add: decimal_step decimal_small)
    then show ?thesis
      by (simp add: pad2_def two_digits_def digit_of_dash digit_of_digit_char)
  next
    case 3
    have d2: "?n div 10 div 10 = ?n div 100" using div_mult2_eq [of ?n 10 10] by simp
    have "10 \<le> ?n" using 3 by simp
    moreover have "10 \<le> ?n div 10" using 3 by (simp add: less_eq_div_iff_mult_less_eq)
    moreover have "?n div 100 < 10" using 3 by (simp add: div_less_iff_less_mult)
    ultimately have "decimal ?n = [digit_char (?n div 100), digit_char (?n div 10), digit_char ?n]"
      using decimal_step [of ?n] decimal_step [of "?n div 10"] decimal_small [of "?n div 100"]
      by (simp add: d2)
    then show ?thesis
      by (simp add: pad2_def two_digits_def digit_of_dash digit_of_digit_char)
  qed
  then show ?thesis by (simp add: strptime_def strftime_def)
qed

lemma collect_unpadded_below_1000:
  assumes "1 \<le> s" "s \<le> 999" "s \<le> e" "e \<le> 9998"
  shows "collect_timeseries_data Unpadded en lat lon s e api_key delay w = (Inl ValueError, w)"
proof -
  let ?n = "nat (12 * (e - s + 1))"
  have "0 < ?n" using assms by simp
  then have u: "[0..<?n] = 0 # [1..<?n]" by (simp add: upt_conv_Cons)
  have "generate_monthly_dates Unpadded s e =
      Inr (map (\<lambda>j. strftime Unpadded (month_at s j)) [0..<?n])"
    using assms by (intro gmd_closed) auto
  then have g: "generate_monthly_dates Unpadded s e =
      Inr (strftime Unpadded \<lparr>year = s, month = 1, day = 1\<rparr> #
           map (\<lambda>j. strftime Unpadded (month_at s j)) [1..<?n])"
    unfolding u by (simp add: month_at_def)
  show ?thesis
    using strptime_unpadded_small [OF assms(1,2), of 1 1]
    by (simp add: collect_timeseries_data_def generate_monthly_dates_io_eq g)
qed

text \<open>
  With a year the datetime type does not have nothing is requested either.
\<close>

lemma collect_out_of_range:
  assumes "s < 1 \<or> 9999 < s \<or> e < 1 \<or> 9999 < e"
  shows "\<exists>err. collect_timeseries_data yf en lat lon s e api_key delay w = (Inl err, w)"
  using generate_monthly_dates_out_of_range [OF assms, of yf]
  by (auto simp: collect_timeseries_data_def generate_monthly_dates_io_eq)

text \<open>
  Claim C2. Whenever \<open>collect_timeseries_data\<close> returns, its three lists have the same
  length, the length of the list \<open>generate_monthly_dates\<close> made, whatever the fetches
  returned. And it does return whenever the start year has four digits, so that
  line 159 reads every date string back whether the platform pads the year or not,
  both years are ones the date axis is defined for and \<open>time.sleep\<close> accepts the
  delay.
\<close>

theorem collect_timeseries_data_lengths:
  "(collect_timeseries_data yf en lat lon s e api_key delay w = (Inr (dates, temps, anoms), w') \<longrightarrow>
      length dates = length temps \<and> length temps = length anoms \<and>
      (\<exists>ds. generate_monthly_dates yf s e = Inr ds \<and> length ds = length dates)) \<and>
   (1000 \<le> s \<and> s \<le> 9999 \<and> 1 \<le> e \<and> e \<le> 9998 \<and> sleep_raises en delay = None \<longrightarrow>
      (\<exists>dates temps anoms w'.
         collect_timeseries_data yf en lat lon s e api_key delay w = (Inr (dates, temps, anoms), w')))"
proof (intro conjI impI)
  assume r: "collect_timeseries_data yf en lat lon s e api_key delay w = (Inr (dates, temps, anoms), w')"
  then obtain ds where g: "generate_monthly_dates yf s e = Inr ds"
    by (auto simp: collect_timeseries_data_def generate_monthly_dates_io_eq split: sum.splits)
  with r have p: "parse_dates ds = Inr dates"
    by (auto simp: collect_timeseries_data_def generate_monthly_dates_io_eq Let_def
        split: sum.splits prod.splits)
  from r g p obtain w1 where
    "collect_loop en lat lon api_key delay (length ds) 0 ds [] []
       (log INFO (Collecting (length ds) s e) w) = (Inr (temps, anoms), w1)"
    by (auto simp: collect_timeseries_data_def generate_monthly_dates_io_eq Let_def
        split: sum.splits prod.splits)
  from collect_loop_lengths [OF this] have l: "length temps = length ds" "length anoms = length ds"
    by simp_all
  have d: "length dates = length ds" using p by (rule parse_dates_length)
  show "length dates = length temps" using l d by simp
  show "length temps = length anoms" using l by simp
  show "\<exists>ds. generate_monthly_dates yf s e = Inr ds \<and> length ds = length dates"
    using g d by auto
next
  assume "1000 \<le> s \<and> s \<le> 9999 \<and> 1 \<le> e \<and> e \<le> 9998 \<and> sleep_raises en delay = None"
  then have a: "1000 \<le> s" "s \<le> 9999" "1 \<le> e" "e \<le> 9998" "sleep_raises en delay = None"
    by simp_all
  from collect_run [OF a, of yf lat lon api_key w]
  show "\<exists>dates temps anoms w'.
         collect_timeseries_data yf en lat lon s e api_key delay w = (Inr (dates, temps, anoms), w')"
    by blast
qed

lemma gmd_2024_length:
  "\<exists>ds. generate_monthly_dates Unpadded 2024 2024 = Inr ds \<and> length ds = 12"
  using gmd_closed [of 2024 2024 Unpadded] by simp

theorem collect_timeseries_data_lengths_witness:
  "\<exists>dates temps anoms w'.
     collect_timeseries_data Unpadded (const_env (Inl (RequestException ''down''))) 0 0 2024 2024 ''key'' 0
       \<lparr>calls = 0, trace = []\<rparr> = (Inr (dates, temps, anoms), w') \<and>
     length dates = 12 \<and> length temps = 12 \<and> length anoms = 12"
proof -
  let ?en = "const_env (Inl (RequestException ''down''))"
  let ?w = "\<lparr>calls = 0, trace = []\<rparr>"
  have "\<exists>dates temps anoms w'.
      collect_timeseries_data Unpadded ?en 0 0 2024 2024 ''key'' 0 ?w = (Inr (dates, temps, anoms), w')"
    using collect_timeseries_data_lengths [of Unpadded ?en 0 0 2024 2024 "''key''" 0 ?w, THEN conjunct2]
    by (simp add: const_env_def)
  then obtain dates temps anoms w' where
    r: "collect_timeseries_data Unpadded ?en 0 0 2024 2024 ''key'' 0 ?w = (Inr (dates, temps, anoms), w')"
    by blast
  from collect_timeseries_data_lengths
    [of Unpadded ?en 0 0 2024 2024 "''key''" 0 ?w dates temps anoms w', THEN conjunct1] r
  have l: "length dates = length temps" "length temps = length anoms"
    and "\<exists>ds. generate_monthly_dates Unpadded 2024 2024 = Inr ds \<and> length ds = length dates"
    by blast+
  with gmd_2024_length have "length dates = 12" by auto
  with r l show ?thesis by auto
qed

text \<open>
  Claim C6. In a run that is not cut short by an exception (the start year has four
  digits, both years are in range, the delay is accepted), the requests and pauses
  of \<open>collect_timeseries_data\<close> are, for each date of the axis in order: the request
  for \<open>mean\<close>, a pause, the request for \<open>anomaly\<close>, a pause; nothing else. The
  \<open>k\<close>-th temperature is what the call number \<open>2 * k\<close> returned for the \<open>k\<close>-th date,
  the \<open>k\<close>-th anomaly what the call number \<open>2 * k + 1\<close> returned for it, and the
  returned dates are the parsed axis.
\<close>

theorem collect_timeseries_data_sequential:
  assumes "1000 \<le> s" "s \<le> 9999" "1 \<le> e" "e \<le> 9998" "sleep_raises en delay = None"
  shows "\<exists>ds dates temps anoms w' new.
      generate_monthly_dates yf s e = Inr ds \<and>
      collect_timeseries_data yf en lat lon s e api_key delay w = (Inr (dates, temps, anoms), w') \<and>
      trace w' = trace w @ new \<and>
      io_events new = concat (map (\<lambda>d.
          [Get (mk_request lat lon ''mean'' d api_key API_BASE_URL API_ENDPOINT), Sleep delay,
           Get (mk_request lat lon ''anomaly'' d api_key API_BASE_URL API_ENDPOINT), Sleep delay]) ds) \<and>
      parse_dates ds = Inr dates \<and>
      length temps = length ds \<and> length anoms = length ds \<and>
      (\<forall>k < length ds.
         temps ! k = fst (fetch_outcome ''mean'' (ds ! k) (transport en (calls w + 2 * k)
            (mk_request lat lon ''mean'' (ds ! k) api_key API_BASE_URL API_ENDPOINT))) \<and>
         anoms ! k = fst (fetch_outcome ''anomaly'' (ds ! k) (transport en (calls w + 2 * k + 1)
            (mk_request lat lon ''anomaly'' (ds ! k) api_key API_BASE_URL API_ENDPOINT))))"
proof -
  from collect_run [OF assms, of yf lat lon api_key w]
  obtain ds dates temps anoms w' new where
    g: "generate_monthly_dates yf s e = Inr ds" and p: "parse_dates ds = Inr dates"
    and r: "collect_timeseries_data yf en lat lon s e api_key delay w = (Inr (dates, temps, anoms), w')"
    and t: "temps = map (\<lambda>k. fst (fetch_outcome ''mean'' (ds ! k)
                (transport en (calls w + 2 * k)
                   (mk_request lat lon ''mean'' (ds ! k) api_key API_BASE_URL API_ENDPOINT))))
              [0..<length ds]"
    and a: "anoms = map (\<lambda>k. fst (fetch_outcome ''anomaly'' (ds ! k)
                (transport en (calls w + 2 * k + 1)
                   (mk_request lat lon ''anomaly'' (ds ! k) api_key API_BASE_URL API_ENDPOINT))))
              [0..<length ds]"
    and tr: "trace w' = trace w @ new"
    and io: "io_events new = concat (map (\<lambda>d.
          [Get (mk_request lat lon ''mean'' d api_key API_BASE_URL API_ENDPOINT), Sleep delay,
           Get (mk_request lat lon ''anomaly'' d api_key API_BASE_URL API_ENDPOINT), Sleep delay]) ds)"
    by blast
  have lt: "length temps = length ds" and la: "length anoms = length ds"
    by (simp_all add: t a)
  have nth: "\<forall>k < length ds.
         temps ! k = fst (fetch_outcome ''mean'' (ds ! k) (transport en (calls w + 2 * k)
            (mk_request lat lon ''mean'' (ds ! k) api_key API_BASE_URL API_ENDPOINT))) \<and>
         anoms ! k = fst (fetch_outcome ''anomaly'' (ds ! k) (transport en (calls w + 2 * k + 1)
            (mk_request lat lon ''anomaly'' (ds ! k) api_key API_BASE_URL API_ENDPOINT)))"
    by (simp add: t a)
  from g r tr io p lt la nth show ?thesis by blast
qed

theorem collect_timeseries_data_sequential_witness:
  "\<exists>ds dates temps anoms w' new.
      generate_monthly_dates Unpadded 2024 2024 = Inr ds \<and> length ds = 12 \<and>
      collect_timeseries_data Unpadded (const_env (Inr (Response 500 (Inr PNone)))) 1 2 2024 2024 ''key'' 3
        \<lparr>calls = 0, trace = []\<rparr> = (Inr (dates, temps, anoms), w') \<and>
      trace w' = new \<and>
      io_events new = concat (map (\<lambda>d.
          [Get (mk_request 1 2 ''mean'' d ''key'' API_BASE_URL API_ENDPOINT), Sleep 3,
           Get (mk_request 1 2 ''anomaly'' d ''key'' API_BASE_URL API_ENDPOINT), Sleep 3]) ds) \<and>
      length temps = 12 \<and> length anoms = 12"
proof -
  let ?en = "const_env (Inr (Response 500 (Inr PNone)))"
  have sl: "sleep_raises ?en 3 = None" by (simp add: const_env_def)
  have b: "(1000::int) \<le> 2024" "(2024::int) \<le> 9999" "(1::int) \<le> 2024" "(2024::int) \<le> 9998"
    by simp_all
  from collect_timeseries_data_sequential
    [OF b sl, of Unpadded 1 2 "''key''" "\<lparr>calls = 0, trace = []\<rparr>"]
  obtain ds dates temps anoms w' new where
    g: "generate_monthly_dates Unpadded 2024 2024 = Inr ds"
    and r: "collect_timeseries_data Unpadded ?en 1 2 2024 2024 ''key'' 3 \<lparr>calls = 0, trace = []\<rparr> =
       (Inr (dates, temps, anoms), w')"
    and t: "trace w' = trace \<lparr>calls = 0, trace = []\<rparr> @ new"
    and io: "io_events new = concat (map (\<lambda>d.
          [Get (mk_request 1 2 ''mean'' d ''key'' API_BASE_URL API_ENDPOINT), Sleep 3,
           Get (mk_request 1 2 ''anomaly'' d ''key'' API_BASE_URL API_ENDPOINT), Sleep 3]) ds)"
    and l: "length temps = length ds" "length anoms = length ds"
    by auto
  from g gmd_2024_length have "length ds = 12" by auto
  with g r t io l show ?thesis by auto
qed

subsection \<open>The end-to-end scenario\<close>

lemma ramp_env_mean:
  "fetch_outcome ''mean'' d (transport (ramp_env sl) i r) = (PFloat (20 + real i / 100), [])"
  by (simp add: ramp_env_def fetch_outcome_def on_response_def success_payload_def)

lemma ramp_env_anomaly:
  "fetch_outcome ''anomaly'' d (transport (ramp_env sl) i r) = (PFloat (1 / 2), [])"
  by (simp add: ramp_env_def fetch_outcome_def on_response_def success_payload_def)

lemma gmd_two_years_length:
  assumes "1 \<le> s" "s \<le> 9997" "generate_monthly_dates yf s (s + 1) = Inr ds"
  shows "length ds = 24"
  using gmd_closed [of s "s + 1" yf] assms by auto

text \<open>
  Claim C5. With a transport whose \<open>i\<close>-th call returns temperature
  \<open>20.0 + 0.01 * i\<close> and anomaly \<open>0.5\<close>, counted from the first call of the run,
  collecting two years (of four digits) with a delay that \<open>time.sleep\<close> accepts gives
  24 dates, 24 temperatures and 24 anomalies, none of them \<open>None\<close>, and the
  temperatures, those of the calls 0, 2, ..., 46, are strictly increasing.
\<close>

theorem collect_timeseries_data_ramp:
  assumes "1000 \<le> s" "s \<le> 9997" "sl delay = None" "calls w = 0"
  shows "\<exists>dates temps anoms w' ts.
      collect_timeseries_data yf (ramp_env sl) lat lon s (s + 1) api_key delay w =
        (Inr (dates, temps, anoms), w') \<and>
      length dates = 24 \<and> length temps = 24 \<and> length anoms = 24 \<and>
      PNone \<notin> set temps \<and> PNone \<notin> set anoms \<and>
      temps = map PFloat ts \<and> sorted_wrt (<) ts \<and>
      ts = map (\<lambda>k. 20 + real (2 * k) / 100) [0..<24]"
proof -
  have sl: "sleep_raises (ramp_env sl) delay = None"
    using assms(3) by (simp add: ramp_env_def)
  have b: "1000 \<le> s" "s \<le> 9999" "1 \<le> s + 1" "s + 1 \<le> 9998"
    using assms(1,2) by simp_all
  from collect_run [OF b sl, of yf lat lon api_key w]
  obtain ds dates temps anoms w' where
    g: "generate_monthly_dates yf s (s + 1) = Inr ds" and p: "parse_dates ds = Inr dates"
    and r: "collect_timeseries_data yf (ramp_env sl) lat lon s (s + 1) api_key delay w =
       (Inr (dates, temps, anoms), w')"
    and t: "temps = map (\<lambda>k. fst (fetch_outcome ''mean'' (ds ! k)
                (transport (ramp_env sl) (calls w + 2 * k)
                   (mk_request lat lon ''mean'' (ds ! k) api_key API_BASE_URL API_ENDPOINT))))
              [0..<length ds]"
    and a: "anoms = map (\<lambda>k. fst (fetch_outcome ''anomaly'' (ds ! k)
                (transport (ramp_env sl) (calls w + 2 * k + 1)
                   (mk_request lat lon ''anomaly'' (ds ! k) api_key API_BASE_URL API_ENDPOINT))))
              [0..<length ds]"
    by blast
  have "1 \<le> s" using assms(1) by simp
  then have n: "length ds = 24" using assms(2) g by (rule gmd_two_years_length)
  define ts where "ts = map (\<lambda>k. 20 + real (2 * k) / 100) [0..<24]"
  have t': "temps = map PFloat ts"
    by (simp add: t n ts_def ramp_env_mean assms(4))
  have a': "anoms = map (\<lambda>k. PFloat (1 / 2)) [0..<24]"
    by (simp add: a n ramp_env_anomaly)
  have srt: "sorted_wrt (<) ts"
    by (simp add: ts_def sorted_wrt_iff_nth_less divide_strict_right_mono)
  have "length dates = 24" using parse_dates_length [OF p] n by simp
  moreover have "length temps = 24" by (simp add: t n)
  moreover have "length anoms = 24" by (simp add: a n)
  moreover have "PNone \<notin> set temps" by (auto simp: t')
  moreover have "PNone \<notin> set anoms" by (auto simp: a')
  ultimately show ?thesis using r t' srt ts_def by blast
qed

theorem collect_timeseries_data_ramp_witness:
  "\<exists>dates temps anoms w'.
      collect_timeseries_data Unpadded (ramp_env sleep_nonneg) 0 0 2000 2001 ''key'' (1 / 10)
        \<lparr>calls = 0, trace = []\<rparr> = (Inr (dates, temps, anoms), w') \<and>
      length dates = 24 \<and> length temps = 24 \<and> length anoms = 24 \<and>
      PNone \<notin> set temps \<and> PNone \<notin> set anoms \<and>
      (\<exists>ts. temps = map PFloat ts \<and> sorted_wrt (<) ts)"
proof -
  have b: "(1000::int) \<le> 2000" "(2000::int) \<le> 9997" by simp_all
  have sl: "sleep_nonneg (1 / 10) = None" by (simp add: sleep_nonneg_def)
  have c: "calls \<lparr>calls = 0, trace = []\<rparr> = 0" by simp
  have y: "(2000::int) + 1 = 2001" by simp
  from collect_timeseries_data_ramp
    [where s = 2000 and sl = sleep_nonneg and delay = "1 / 10" and
       w = "\<lparr>calls = 0, trace = []\<rparr>" and yf = Unpadded and lat = 0 and lon = 0 and
       api_key = "''key''", OF b sl c]
  obtain dates temps anoms w' ts where
    "collect_timeseries_data Unpadded (ramp_env sleep_nonneg) 0 0 2000 (2000 + 1) ''key'' (1 / 10)
        \<lparr>calls = 0, trace = []\<rparr> = (Inr (dates, temps, anoms), w')"
    "length dates = 24" "length temps = 24" "length anoms = 24"
    "PNone \<notin> set temps" "PNone \<notin> set anoms"
    "temps = map PFloat ts" "sorted_wrt (<) ts"
    by blast
  then show ?thesis unfolding y by blast
qed

subsection \<open>Years in the wrong order\<close>

text \<open>
  Claim C9, as amended. If \<open>start_year > end_year\<close> and both years are between 1 and
  9999, \<open>generate_monthly_dates\<close> returns the empty list, and
  \<open>collect_timeseries_data\<close> returns three empty lists after logging two messages,
  without a request and without a pause.
\<close>

theorem collect_timeseries_data_reversed_years:
  assumes "1 \<le> e" "e < s" "s \<le> 9999"
  shows "generate_monthly_dates yf s e = Inr [] \<and>
         collect_timeseries_data yf en lat lon s e api_key delay w =
           (Inr ([], [], []),
            w\<lparr>trace := trace w @ [Log INFO (Collecting 0 s e), Log INFO (Complete 0 0)]\<rparr>)"
  using gmd_empty [OF assms, of yf]
  by (simp add: collect_timeseries_data_def generate_monthly_dates_io_eq log_def
      count_present_def)

theorem collect_timeseries_data_reversed_years_witness:
  "generate_monthly_dates Unpadded 2025 2024 = Inr [] \<and>
   collect_timeseries_data Unpadded (const_env (Inr (Response 500 (Inr PNone)))) 0 0 2025 2024 ''key'' 0
       \<lparr>calls = 0, trace = []\<rparr> =
     (Inr ([], [], []),
      \<lparr>calls = 0, trace = [Log INFO (Collecting 0 2025 2024), Log INFO (Complete 0 0)]\<rparr>)"
proof -
  have b: "(1::int) \<le> 2024" "(2024::int) < 2025" "(2025::int) \<le> 9999" by simp_all
  from collect_timeseries_data_reversed_years
    [OF b, of Unpadded "const_env (Inr (Response 500 (Inr PNone)))" 0 0 "''key''" 0
        "\<lparr>calls = 0, trace = []\<rparr>"]
  show ?thesis by simp
qed

text \<open>
  Claim C9 as stated, for every \<open>start_year > end_year\<close>, fails: for the years 5 and 0
  the constructor raises for the end date and no list is returned.
\<close>

theorem generate_monthly_dates_reversed_counterexample:
  "\<not> (\<exists>yf ds. generate_monthly_dates yf 5 0 = Inr ds)"
  by (simp add: generate_monthly_dates_def new_datetime_def c_int_def MINYEAR_def MAXYEAR_def
      days_in_month_def)

subsection \<open>The title of the chart\<close>

text \<open>
  Claim C7 does not hold of the code. The title of the chart is built from the
  latitude, the longitude and the fixed text \<open>(1981-2025)\<close>: for the series collected
  for the years 2000 and 2001 the title still reads \<open>(1981-2025)\<close>.
\<close>

theorem create_graph_title_fixed_range:
  "\<forall>yf temperatures anomalies.
     (\<exists>ds dates. generate_monthly_dates yf 2000 2001 = Inr ds \<and> parse_dates ds = Inr dates \<and>
        create_graph_title dates temperatures anomalies 38.13 4.13 ''sst_timeseries.png'' =
          [Text (''SST Time Series: Temperature and Anomaly'' @ [CHR 0x0A] @ ''Location: ''),
           FloatRepr 38.13, Text (degree_sign @ ''N, ''), FloatRepr 4.13,
           Text (degree_sign @ ''E (1981-2025)'')])"
proof (intro allI)
  fix yf :: year_format and temperatures anomalies :: "pyval list"
  have b: "(1::int) \<le> 2000" "(2000::int) \<le> 9999" "(1::int) \<le> 2001" "(2001::int) \<le> 9998"
    by simp_all
  from gmd_total [OF b, of yf] obtain dts where
    g: "generate_monthly_dates yf 2000 2001 = Inr (map (strftime yf) dts)"
    and v: "\<forall>d \<in> set dts. valid_datetime d \<and> 2000 \<le> year d"
    by blast
  from v have "\<forall>d \<in> set dts. valid_datetime d \<and> (yf = Padded \<or> 1000 \<le> year d)"
    by auto
  then have "parse_dates (map (strftime yf) dts) = Inr dts"
    by (rule parse_dates_strftime)
  with g show "\<exists>ds dates. generate_monthly_dates yf 2000 2001 = Inr ds \<and> parse_dates ds = Inr dates \<and>
        create_graph_title dates temperatures anomalies 38.13 4.13 ''sst_timeseries.png'' =
          [Text (''SST Time Series: Temperature and Anomaly'' @ [CHR 0x0A] @ ''Location: ''),
           FloatRepr 38.13, Text (degree_sign @ ''N, ''), FloatRepr 4.13,
           Text (degree_sign @ ''E (1981-2025)'')]"
    by (auto simp: create_graph_title_def)
qed

end
